theory Spec2Isabelle
  imports Main
begin

section \<open>The data cleaner of the Excel add-in\<close>

text \<open>
  The module under verification is the data cleaner (\<^verbatim>\<open>dataCleaner.js\<close>): pure functions
  over a row-major two-dimensional array of cell values. The functions of the cleaning
  pipeline, \<^verbatim>\<open>cleanData\<close> and all it calls, are embedded below under their own names.

  Conventions of the embedding:
  \<^item> a JavaScript string is a list of code units; the model covers the code units
    below 256 (Basic Latin and Latin-1 Supplement), for which the built-in
    \<^verbatim>\<open>toLowerCase\<close>, \<^verbatim>\<open>trim\<close> and the regular expression classes are written out in
    full below;
  \<^item> a cell is a string, a number, a boolean, \<^verbatim>\<open>null\<close> or \<^verbatim>\<open>undefined\<close>; a number is
    a whole number or one of the three non-finite values \<^verbatim>\<open>NaN\<close>, \<^verbatim>\<open>Infinity\<close>,
    \<^verbatim>\<open>-Infinity\<close>, which \<^verbatim>\<open>JSON.stringify\<close> treats apart;
  \<^item> the argument of \<^verbatim>\<open>cleanData\<close> is an optional grid: \<open>None\<close> stands for
    \<^verbatim>\<open>null\<close>/\<^verbatim>\<open>undefined\<close>;
  \<^item> \<^verbatim>\<open>throw new Error(msg)\<close> is the value \<open>Inl (Error msg)\<close>, and a \<^verbatim>\<open>TypeError\<close>
    thrown by a built-in is \<open>Inl (TypeError msg)\<close>;
  \<^item> the functions are embedded twice: first over the cells of the data model, on which
    no built-in throws, and then over arbitrary array elements (the cells and BigInt
    values), where \<^verbatim>\<open>JSON.stringify\<close> can throw. Objects, functions and symbols as array
    elements are outside the model.
\<close>

subsection \<open>Data model\<close>

datatype jsnumber = Finite int | NaN | PosInfinity | NegInfinity

datatype cell = Text string | Number jsnumber | Boolean bool | Null | Undefined

type_synonym row = "cell list"
type_synonym grid = "row list"

datatype error = Error string | TypeError string

record CleaningResult =
  cleanedData :: grid
  headerRowIndex :: nat
  originalRowCount :: nat
  cleanedRowCount :: nat

definition EMPTY_CELL_REPLACEMENT :: cell where
  "EMPTY_CELL_REPLACEMENT = Text ''N/A''"

subsection \<open>Built-ins of the language used by the module\<close>

text \<open>
  \<^verbatim>\<open>String.prototype.trim\<close> strips white space and line terminators from both ends.
  Below 256 these are the code units 9 to 13, 32 and 160.
\<close>

definition isWhiteSpace :: "char \<Rightarrow> bool" where
  "isWhiteSpace c = (of_char c \<in> {9, 10, 11, 12, 13, 32, 160 :: nat})"

definition trim :: "string \<Rightarrow> string" where
  "trim s = rev (dropWhile isWhiteSpace (rev (dropWhile isWhiteSpace s)))"

text \<open>
  \<^verbatim>\<open>String.prototype.toLowerCase\<close>: below 256 the upper-case letters are \<^verbatim>\<open>A\<close> to
  \<^verbatim>\<open>Z\<close> (65 to 90) and 192 to 222 without the multiplication sign 215; each maps to the
  code unit 32 above it.
\<close>

definition toLowerCaseChar :: "char \<Rightarrow> char" where
  "toLowerCaseChar c =
     (let n = (of_char c :: nat)
      in if (65 \<le> n \<and> n \<le> 90) \<or> (192 \<le> n \<and> n \<le> 222 \<and> n \<noteq> 215)
         then char_of (n + 32) else c)"

definition toLowerCase :: "string \<Rightarrow> string" where
  "toLowerCase s = map toLowerCaseChar s"

text \<open>
  The class \<^verbatim>\<open>\w\<close> of a regular expression without the \<^verbatim>\<open>u\<close> and \<^verbatim>\<open>i\<close> flags:
  the letters \<^verbatim>\<open>A-Z\<close>, \<^verbatim>\<open>a-z\<close>, the digits and the underscore.
\<close>

definition isWordChar :: "char \<Rightarrow> bool" where
  "isWordChar c =
     (let n = (of_char c :: nat)
      in (65 \<le> n \<and> n \<le> 90) \<or> (97 \<le> n \<and> n \<le> 122) \<or> (48 \<le> n \<and> n \<le> 57) \<or> n = 95)"

text \<open>
  \<^verbatim>\<open>char.toUpperCase()\<close> in the replacement callback; it is only ever applied to one
  character matched by \<^verbatim>\<open>\w\<close>, where it maps \<^verbatim>\<open>a-z\<close> to \<^verbatim>\<open>A-Z\<close> and nothing else.
\<close>

definition toUpperCaseChar :: "char \<Rightarrow> char" where
  "toUpperCaseChar c =
     (let n = (of_char c :: nat)
      in if 97 \<le> n \<and> n \<le> 122 then char_of (n - 32) else c)"

text \<open>
  \<^verbatim>\<open>s.replace(/\b\w/g, f)\<close>: a match is one word character at a word boundary, that
  is a word character that is the first of the string or follows a non-word character.
  The scan carries whether the previous character was a word character (\<open>False\<close> at the
  start of the string).
\<close>

fun replaceWordStart :: "bool \<Rightarrow> string \<Rightarrow> string" where
  "replaceWordStart prev [] = []"
| "replaceWordStart prev (c # cs) =
     (if isWordChar c \<and> \<not> prev then toUpperCaseChar c else c)
       # replaceWordStart (isWordChar c) cs"

subsection \<open>\<^verbatim>\<open>JSON.stringify\<close> of a row\<close>

definition hexDigit :: "nat \<Rightarrow> char" where
  "hexDigit n = (if n < 10 then char_of (48 + n) else char_of (87 + n))"

text \<open>
  \<^verbatim>\<open>QuoteJSONString\<close>: the two-character escapes for backspace, tab, line feed, form
  feed, carriage return, the double quote (code unit 34) and the backslash (92), each a
  backslash and one character; a backslash, \<^verbatim>\<open>u00\<close> and two hexadecimal digits for every
  other code unit below 32; any other code unit as it is.
\<close>

definition escapeChar :: "char \<Rightarrow> string" where
  "escapeChar c =
     (let n = (of_char c :: nat)
      in if n = 8 then [CHR 0x5C, CHR ''b'']
         else if n = 9 then [CHR 0x5C, CHR ''t'']
         else if n = 10 then [CHR 0x5C, CHR ''n'']
         else if n = 12 then [CHR 0x5C, CHR ''f'']
         else if n = 13 then [CHR 0x5C, CHR ''r'']
         else if n = 34 then [CHR 0x5C, CHR 0x22]
         else if n = 92 then [CHR 0x5C, CHR 0x5C]
         else if n < 32 then [CHR 0x5C, CHR ''u'', CHR ''0'', CHR ''0'', hexDigit (n div 16), hexDigit (n mod 16)]
         else [c])"

definition quoteJSONString :: "string \<Rightarrow> string" where
  "quoteJSONString s = CHR 0x22 # concat (map escapeChar s) @ [CHR 0x22]"

text \<open>
  \<^verbatim>\<open>Number::toString\<close> of a whole number: its decimal digits, with a minus sign. (From
  \<open>10\<^sup>2\<^sup>1\<close> on the language writes the exponent form; the text differs there, not
  which numbers have the same text.)
\<close>

function showNat :: "nat \<Rightarrow> string" where
  "showNat n = (if n < 10 then [char_of (48 + n)] else showNat (n div 10) @ [char_of (48 + n mod 10)])"
  by pat_completeness auto
termination
  by (relation "measure id") auto

definition showInt :: "int \<Rightarrow> string" where
  "showInt i = (if i < 0 then CHR ''-'' # showNat (nat (- i)) else showNat (nat i))"

text \<open>
  \<^verbatim>\<open>SerializeJSONProperty\<close> of an array element: \<^verbatim>\<open>undefined\<close> and every non-finite
  number are written \<^verbatim>\<open>null\<close>, as \<^verbatim>\<open>null\<close> itself is.
\<close>

fun serializeCell :: "cell \<Rightarrow> string" where
  "serializeCell (Text s) = quoteJSONString s"
| "serializeCell (Number (Finite i)) = showInt i"
| "serializeCell (Number _) = ''null''"
| "serializeCell (Boolean b) = (if b then ''true'' else ''false'')"
| "serializeCell Null = ''null''"
| "serializeCell Undefined = ''null''"

fun joinComma :: "string list \<Rightarrow> string" where
  "joinComma [] = []"
| "joinComma [x] = x"
| "joinComma (x # y # ys) = x @ CHR '','' # joinComma (y # ys)"

definition JSON_stringify :: "row \<Rightarrow> string" where
  "JSON_stringify r = CHR ''['' # joinComma (map serializeCell r) @ [CHR '']'']"

subsection \<open>The functions of the module\<close>

text \<open>
  \<^verbatim>\<open>toTitleCase(text)\<close> returns its argument when it is falsy or not a string; for a
  string the only falsy value is the empty one.
\<close>

fun toTitleCase :: "cell \<Rightarrow> cell" where
  "toTitleCase (Text s) =
     (if s = [] then Text s else Text (replaceWordStart False (toLowerCase s)))"
| "toTitleCase c = c"

fun trimWhitespace :: "cell \<Rightarrow> cell" where
  "trimWhitespace (Text s) = Text (trim s)"
| "trimWhitespace c = c"

fun isString :: "cell \<Rightarrow> bool" where
  "isString (Text s) = True"
| "isString c = False"

fun stringLength :: "cell \<Rightarrow> nat" where
  "stringLength (Text s) = length s"
| "stringLength c = 0"

definition normalizeCasing :: "grid \<Rightarrow> grid" where
  "normalizeCasing data =
     map (\<lambda>row. map (\<lambda>cell.
        if isString cell \<and> stringLength cell > 0 then toTitleCase cell else cell) row) data"

text \<open>
  The loop of \<^verbatim>\<open>removeDuplicateRows\<close> over the rows, with its two variables: the set
  \<^verbatim>\<open>seen\<close> of row strings and the array \<^verbatim>\<open>uniqueRows\<close>, to which \<^verbatim>\<open>push\<close> appends.
\<close>

fun removeDuplicateRows_loop :: "string set \<Rightarrow> grid \<Rightarrow> grid \<Rightarrow> grid" where
  "removeDuplicateRows_loop seen uniqueRows [] = uniqueRows"
| "removeDuplicateRows_loop seen uniqueRows (row # rest) =
     (let rowString = JSON_stringify row
      in if rowString \<notin> seen
         then removeDuplicateRows_loop (insert rowString seen) (uniqueRows @ [row]) rest
         else removeDuplicateRows_loop seen uniqueRows rest)"

definition removeDuplicateRows :: "grid \<Rightarrow> grid" where
  "removeDuplicateRows data = removeDuplicateRows_loop {} [] data"

text \<open>The predicate passed to \<^verbatim>\<open>every\<close> in \<^verbatim>\<open>isEmptyRow\<close>.\<close>

fun isEmptyCell :: "cell \<Rightarrow> bool" where
  "isEmptyCell Null = True"
| "isEmptyCell Undefined = True"
| "isEmptyCell (Text s) = (length (trim s) = 0)"
| "isEmptyCell c = False"

definition isEmptyRow :: "row \<Rightarrow> bool" where
  "isEmptyRow row = list_all isEmptyCell row"

definition removeEmptyRows :: "grid \<Rightarrow> grid" where
  "removeEmptyRows data = filter (\<lambda>row. \<not> isEmptyRow row) data"

fun replaceEmptyCell :: "cell \<Rightarrow> cell" where
  "replaceEmptyCell Null = EMPTY_CELL_REPLACEMENT"
| "replaceEmptyCell Undefined = EMPTY_CELL_REPLACEMENT"
| "replaceEmptyCell (Text s) = (if length (trim s) = 0 then EMPTY_CELL_REPLACEMENT else Text s)"
| "replaceEmptyCell c = c"

definition replaceEmptyCells :: "grid \<Rightarrow> grid" where
  "replaceEmptyCells data = map (\<lambda>row. map replaceEmptyCell row) data"

text \<open>The \<^verbatim>\<open>for\<close> loop of \<^verbatim>\<open>detectHeaderRow\<close>, from index \<open>i\<close> on.\<close>

function detectHeaderRow_loop :: "nat \<Rightarrow> grid \<Rightarrow> nat" where
  "detectHeaderRow_loop i data =
     (if i < length data
      then (if \<not> isEmptyRow (data ! i) then i else detectHeaderRow_loop (i + 1) data)
      else 0)"
  by pat_completeness auto
termination
  by (relation "measure (\<lambda>(i, data). length data - i)") auto

definition detectHeaderRow :: "grid \<Rightarrow> nat" where
  "detectHeaderRow data = detectHeaderRow_loop 0 data"

definition trimAllWhitespace :: "grid \<Rightarrow> grid" where
  "trimAllWhitespace data = map (\<lambda>row. map trimWhitespace row) data"

fun cleanData :: "grid option \<Rightarrow> error + CleaningResult" where
  "cleanData None = Inl (Error ''No data provided to clean.'')"
| "cleanData (Some data) =
     (if length data = 0 then Inl (Error ''No data provided to clean.'')
      else
        let originalRowCount = length data;
            cleaned = trimAllWhitespace data;
            cleaned = normalizeCasing cleaned;
            cleaned = removeDuplicateRows cleaned;
            cleaned = removeEmptyRows cleaned;
            cleaned = replaceEmptyCells cleaned;
            headerRowIndex = detectHeaderRow cleaned;
            cleanedRowCount = length cleaned
        in Inr \<lparr> cleanedData = cleaned,
                 headerRowIndex = headerRowIndex,
                 originalRowCount = originalRowCount,
                 cleanedRowCount = cleanedRowCount \<rparr>)"

subsection \<open>The functions of the module over arbitrary array elements\<close>

text \<open>
  The parameters of the module are typed \<^verbatim>\<open>Array<Array<any>>\<close>. An array element that is
  not a cell of the data model is modelled by the BigInt values: for them \<^verbatim>\<open>typeof\<close> is
  \<^verbatim>\<open>"bigint"\<close>, they are neither \<^verbatim>\<open>null\<close> nor \<^verbatim>\<open>undefined\<close>, and \<^verbatim>\<open>JSON.stringify\<close>
  throws a \<^verbatim>\<open>TypeError\<close> on them. Each function below has the body of the function above
  with the same name, now with the case of a BigInt element.
\<close>

datatype jsvalue = Cell cell | BigInt int

record CleaningResult_any =
  cleanedData_any :: "jsvalue list list"
  headerRowIndex_any :: nat
  originalRowCount_any :: nat
  cleanedRowCount_any :: nat

fun isBigInt :: "jsvalue \<Rightarrow> bool" where
  "isBigInt (BigInt n) = True"
| "isBigInt (Cell c) = False"

fun trimWhitespace_any :: "jsvalue \<Rightarrow> jsvalue" where
  "trimWhitespace_any (Cell c) = Cell (trimWhitespace c)"
| "trimWhitespace_any (BigInt n) = BigInt n"

definition normalizeCasing_any :: "jsvalue list list \<Rightarrow> jsvalue list list" where
  "normalizeCasing_any data =
     map (\<lambda>row. map (\<lambda>v.
        case v of
          Cell cell \<Rightarrow> Cell (if isString cell \<and> stringLength cell > 0 then toTitleCase cell else cell)
        | BigInt n \<Rightarrow> BigInt n) row) data"

text \<open>
  \<^verbatim>\<open>SerializeJSONProperty\<close> throws on a BigInt; \<^verbatim>\<open>SerializeJSONArray\<close> serializes the
  elements in order, so the first element that throws ends the call.
\<close>

fun serializeValue :: "jsvalue \<Rightarrow> error + string" where
  "serializeValue (Cell c) = Inr (serializeCell c)"
| "serializeValue (BigInt n) = Inl (TypeError ''Do not know how to serialize a BigInt'')"

fun serializeValues :: "jsvalue list \<Rightarrow> error + string list" where
  "serializeValues [] = Inr []"
| "serializeValues (v # vs) =
     (case serializeValue v of
        Inl e \<Rightarrow> Inl e
      | Inr s \<Rightarrow> (case serializeValues vs of Inl e \<Rightarrow> Inl e | Inr ss \<Rightarrow> Inr (s # ss)))"

definition JSON_stringify_any :: "jsvalue list \<Rightarrow> error + string" where
  "JSON_stringify_any r =
     (case serializeValues r of
        Inl e \<Rightarrow> Inl e
      | Inr ss \<Rightarrow> Inr (CHR ''['' # joinComma ss @ [CHR '']'']))"

fun removeDuplicateRows_any_loop ::
  "string set \<Rightarrow> jsvalue list list \<Rightarrow> jsvalue list list \<Rightarrow> error + jsvalue list list" where
  "removeDuplicateRows_any_loop seen uniqueRows [] = Inr uniqueRows"
| "removeDuplicateRows_any_loop seen uniqueRows (row # rest) =
     (case JSON_stringify_any row of
        Inl e \<Rightarrow> Inl e
      | Inr rowString \<Rightarrow>
          if rowString \<notin> seen
          then removeDuplicateRows_any_loop (insert rowString seen) (uniqueRows @ [row]) rest
          else removeDuplicateRows_any_loop seen uniqueRows rest)"

definition removeDuplicateRows_any :: "jsvalue list list \<Rightarrow> error + jsvalue list list" where
  "removeDuplicateRows_any data = removeDuplicateRows_any_loop {} [] data"

fun isEmptyValue :: "jsvalue \<Rightarrow> bool" where
  "isEmptyValue (Cell c) = isEmptyCell c"
| "isEmptyValue (BigInt n) = False"

definition isEmptyRow_any :: "jsvalue list \<Rightarrow> bool" where
  "isEmptyRow_any row = list_all isEmptyValue row"

definition removeEmptyRows_any :: "jsvalue list list \<Rightarrow> jsvalue list list" where
  "removeEmptyRows_any data = filter (\<lambda>row. \<not> isEmptyRow_any row) data"

fun replaceEmptyValue :: "jsvalue \<Rightarrow> jsvalue" where
  "replaceEmptyValue (Cell c) = Cell (replaceEmptyCell c)"
| "replaceEmptyValue (BigInt n) = BigInt n"

definition replaceEmptyCells_any :: "jsvalue list list \<Rightarrow> jsvalue list list" where
  "replaceEmptyCells_any data = map (\<lambda>row. map replaceEmptyValue row) data"

function detectHeaderRow_any_loop :: "nat \<Rightarrow> jsvalue list list \<Rightarrow> nat" where
  "detectHeaderRow_any_loop i data =
     (if i < length data
      then (if \<not> isEmptyRow_any (data ! i) then i else detectHeaderRow_any_loop (i + 1) data)
      else 0)"
  by pat_completeness auto
termination
  by (relation "measure (\<lambda>(i, data). length data - i)") auto

definition detectHeaderRow_any :: "jsvalue list list \<Rightarrow> nat" where
  "detectHeaderRow_any data = detectHeaderRow_any_loop 0 data"

definition trimAllWhitespace_any :: "jsvalue list list \<Rightarrow> jsvalue list list" where
  "trimAllWhitespace_any data = map (\<lambda>row. map trimWhitespace_any row) data"

fun cleanData_any :: "jsvalue list list option \<Rightarrow> error + CleaningResult_any" where
  "cleanData_any None = Inl (Error ''No data provided to clean.'')"
| "cleanData_any (Some data) =
     (if length data = 0 then Inl (Error ''No data provided to clean.'')
      else
        let originalRowCount = length data;
            cleaned = trimAllWhitespace_any data;
            cleaned = normalizeCasing_any cleaned
        in case removeDuplicateRows_any cleaned of
             Inl e \<Rightarrow> Inl e
           | Inr cleaned \<Rightarrow>
               let cleaned = removeEmptyRows_any cleaned;
                   cleaned = replaceEmptyCells_any cleaned;
                   headerRowIndex = detectHeaderRow_any cleaned;
                   cleanedRowCount = length cleaned
               in Inr \<lparr> cleanedData_any = cleaned,
                        headerRowIndex_any = headerRowIndex,
                        originalRowCount_any = originalRowCount,
                        cleanedRowCount_any = cleanedRowCount \<rparr>)"

subsection \<open>Auxiliary definitions for the proofs\<close>

text \<open>
  The rows that the loop of \<^verbatim>\<open>removeDuplicateRows\<close> still appends, given the set of row
  strings seen so far.
\<close>

fun keepUnseen :: "string set \<Rightarrow> grid \<Rightarrow> grid" where
  "keepUnseen seen [] = []"
| "keepUnseen seen (row # rest) =
     (if JSON_stringify row \<in> seen then keepUnseen seen rest
      else row # keepUnseen (insert (JSON_stringify row) seen) rest)"

text \<open>The six steps of \<^verbatim>\<open>cleanData\<close> up to the cleaned grid, composed.\<close>

definition pipeline :: "grid \<Rightarrow> grid" where
  "pipeline g = replaceEmptyCells (removeEmptyRows (removeDuplicateRows (normalizeCasing (trimAllWhitespace g))))"

text \<open>The function that \<^verbatim>\<open>normalizeCasing\<close> maps over the cells of a row.\<close>

definition caseCell :: "cell \<Rightarrow> cell" where
  "caseCell cell = (if isString cell \<and> stringLength cell > 0 then toTitleCase cell else cell)"

text \<open>
  Title case stated by position. Position \<open>k\<close> of a string is a word start when it
  holds a word character (\<^verbatim>\<open>A-Z\<close>, \<^verbatim>\<open>a-z\<close>, a digit or the underscore) that is the first
  character of the string or follows a character that is not a word character, that
  is when it is the first character of a maximal run of word characters. The string
  is lower-cased, and then the character at every word start is upper-cased.
\<close>

definition wordStart :: "string \<Rightarrow> nat \<Rightarrow> bool" where
  "wordStart s k = (isWordChar (s ! k) \<and> (k = 0 \<or> \<not> isWordChar (s ! (k - 1))))"

definition asciiTitleCase :: "string \<Rightarrow> string" where
  "asciiTitleCase s =
     (let low = toLowerCase s
      in map (\<lambda>k. if wordStart low k then toUpperCaseChar (low ! k) else low ! k) [0..<length low])"

text \<open>
  The letters (Unicode general category L) among the code units below 256: \<^verbatim>\<open>A-Z\<close>,
  \<^verbatim>\<open>a-z\<close>, the ordinal indicators 170 and 186, the micro sign 181, and 192 to 255
  without the multiplication sign 215 and the division sign 247.
\<close>

definition isLetter :: "char \<Rightarrow> bool" where
  "isLetter c =
     (let n = (of_char c :: nat)
      in (65 \<le> n \<and> n \<le> 90) \<or> (97 \<le> n \<and> n \<le> 122) \<or> n = 170 \<or> n = 181 \<or> n = 186
         \<or> (192 \<le> n \<and> n \<le> 255 \<and> n \<noteq> 215 \<and> n \<noteq> 247))"

declare detectHeaderRow_loop.simps [simp del]
declare detectHeaderRow_any_loop.simps [simp del]
declare showNat.simps [simp del]

subsection \<open>Auxiliary definitions for the row strings\<close>

text \<open>
  Scanning a row string, for the proof that it determines the strings of its cells. The
  length of the body of a string literal, read from the character after the opening
  quote up to the closing quote; a backslash takes the next character with it.
\<close>

fun stringBodyLength :: "string \<Rightarrow> nat" where
  "stringBodyLength [] = 0"
| "stringBodyLength (c # cs) =
     (if c = CHR 0x22 then 0
      else if c = CHR 0x5C then (case cs of [] \<Rightarrow> 1 | d # ds \<Rightarrow> 2 + stringBodyLength ds)
      else 1 + stringBodyLength cs)"

text \<open>
  The length of the first value in a piece of a row string: a string literal with both
  quotes, or the characters before the next comma or closing bracket.
\<close>

definition tokenLength :: "string \<Rightarrow> nat" where
  "tokenLength s =
     (case s of
        [] \<Rightarrow> 0
      | c # cs \<Rightarrow>
          if c = CHR 0x22 then 2 + stringBodyLength cs
          else length (takeWhile (\<lambda>x. x \<noteq> CHR '','' \<and> x \<noteq> CHR '']'') s))"

text \<open>What follows a value in a row string starts with a comma or the closing bracket.\<close>

definition delimited :: "string \<Rightarrow> bool" where
  "delimited rest = (rest \<noteq> [] \<and> (hd rest = CHR '','' \<or> hd rest = CHR '']''))"

text \<open>
  A token is a non-empty string that starts neither with a comma nor with the closing
  bracket and whose end the scan finds, whatever delimited text follows.
\<close>

definition isToken :: "string \<Rightarrow> bool" where
  "isToken t = (t \<noteq> [] \<and> hd t \<noteq> CHR '','' \<and> hd t \<noteq> CHR '']''
                \<and> (\<forall>rest. delimited rest \<longrightarrow> tokenLength (t @ rest) = length t))"

text \<open>The decimal digits.\<close>

definition isDigit :: "char \<Rightarrow> bool" where
  "isDigit c = (48 \<le> (of_char c :: nat) \<and> (of_char c :: nat) \<le> 57)"

text \<open>The rest of a row string after its first value.\<close>

definition rowTail :: "string list \<Rightarrow> string" where
  "rowTail xs = (if xs = [] then [CHR '']''] else CHR '','' # joinComma xs @ [CHR '']''])"

text \<open>
  Reading one escaped character back from the head of the body of a string literal:
  the inverse of \<^verbatim>\<open>QuoteJSONString\<close> on a character.
\<close>

definition hexValue :: "char \<Rightarrow> nat" where
  "hexValue c = (let n = (of_char c :: nat) in if n < 58 then n - 48 else n - 87)"

definition namedEscape :: "char \<Rightarrow> char" where
  "namedEscape d =
     (if d = CHR ''b'' then CHR 0x08 else if d = CHR ''t'' then CHR 0x09
      else if d = CHR ''n'' then CHR 0x0A else if d = CHR ''f'' then CHR 0x0C
      else if d = CHR ''r'' then CHR 0x0D else d)"

definition unescapeHead :: "string \<Rightarrow> char \<times> string" where
  "unescapeHead s =
     (case s of
        [] \<Rightarrow> (CHR 0x00, [])
      | c # cs \<Rightarrow>
          if c = CHR 0x5C
          then (case cs of
                  [] \<Rightarrow> (c, [])
                | d # ds \<Rightarrow>
                    if d = CHR ''u''
                    then (case ds of
                            a # b # h1 # h2 # r \<Rightarrow> (char_of (16 * hexValue h1 + hexValue h2), r)
                          | _ \<Rightarrow> (c, []))
                    else (namedEscape d, ds))
          else (c, cs))"

text \<open>Reading a decimal numeral back.\<close>

definition readNat :: "string \<Rightarrow> nat" where
  "readNat ds = foldl (\<lambda>a c. 10 * a + (of_char c - 48)) 0 ds"

subsection \<open>The stages as the specification words them\<close>

text \<open>
  The stages in the words of the specification, to be compared with the functions of
  the module. A cell is empty when it is of the Empty kind or a Text whose trimmed
  content has length zero.
\<close>

definition spec_empty :: "cell \<Rightarrow> bool" where
  "spec_empty c = (case c of Null \<Rightarrow> True | Undefined \<Rightarrow> True | Text s \<Rightarrow> length (trim s) = 0 | _ \<Rightarrow> False)"

text \<open>Trimming: every Text cell is stripped of leading and trailing white space.\<close>

definition spec_trim :: "grid \<Rightarrow> grid" where
  "spec_trim g = map (map (\<lambda>c. case c of Text s \<Rightarrow> Text (trim s) | _ \<Rightarrow> c)) g"

text \<open>
  Duplicate elimination: a row is kept when no earlier row has its row string; the
  kept rows stay in the order of the input.
\<close>

definition spec_dedup :: "grid \<Rightarrow> grid" where
  "spec_dedup g =
     map (\<lambda>i. g ! i)
       (filter (\<lambda>i. JSON_stringify (g ! i) \<notin> JSON_stringify ` set (take i g)) [0..<length g])"

text \<open>Row removal: a row is kept when one of its cells is not empty.\<close>

definition spec_dropEmptyRows :: "grid \<Rightarrow> grid" where
  "spec_dropEmptyRows g = filter (\<lambda>row. \<exists>c \<in> set row. \<not> spec_empty c) g"

text \<open>Cell replacement: every empty cell becomes the placeholder.\<close>

definition spec_fillEmpty :: "grid \<Rightarrow> grid" where
  "spec_fillEmpty g = map (map (\<lambda>c. if spec_empty c then Text ''N/A'' else c)) g"

text \<open>
  The header locator: the index of the first row that is not fully empty, and 0 when
  there is none.
\<close>

definition spec_header :: "grid \<Rightarrow> nat" where
  "spec_header g =
     (case filter (\<lambda>i. \<exists>c \<in> set (g ! i). \<not> spec_empty c) [0..<length g] of
        [] \<Rightarrow> 0
      | i # _ \<Rightarrow> i)"

text \<open>A text whose letters are all ASCII letters.\<close>

definition onlyAsciiLetters :: "string \<Rightarrow> bool" where
  "onlyAsciiLetters s = list_all (\<lambda>c. isLetter c \<longrightarrow> (of_char c :: nat) < 128) s"

section \<open>Properties of the stages\<close>

subsection \<open>The loop of \<^verbatim>\<open>removeDuplicateRows\<close>\<close>

lemma loop_keepUnseen:
  "removeDuplicateRows_loop seen uniqueRows data = uniqueRows @ keepUnseen seen data"
  by (induction data arbitrary: seen uniqueRows) (simp_all add: Let_def)

lemma removeDuplicateRows_keepUnseen: "removeDuplicateRows data = keepUnseen {} data"
  by (simp add: removeDuplicateRows_def loop_keepUnseen)

lemma keepUnseen_keys:
  "JSON_stringify ` set (keepUnseen seen data) = JSON_stringify ` set data - seen"
  by (induction data arbitrary: seen) auto

lemma keepUnseen_distinct: "distinct (map JSON_stringify (keepUnseen seen data))"
proof (induction data arbitrary: seen)
  case Nil
  show ?case by simp
next
  case (Cons row rest)
  have "JSON_stringify row \<notin> JSON_stringify ` set (keepUnseen (insert (JSON_stringify row) seen) rest)"
    by (simp add: keepUnseen_keys)
  with Cons show ?case by simp
qed

lemma keepUnseen_length: "length (keepUnseen seen data) \<le> length data"
  by (induction data arbitrary: seen) (auto simp: le_SucI)

lemma keepUnseen_id:
  "distinct (map JSON_stringify data) \<Longrightarrow> JSON_stringify ` set data \<inter> seen = {}
   \<Longrightarrow> keepUnseen seen data = data"
  by (induction data arbitrary: seen) auto

lemma removeDuplicateRows_length: "length (removeDuplicateRows data) \<le> length data"
  by (simp add: removeDuplicateRows_keepUnseen keepUnseen_length)

lemma removeDuplicateRows_distinct: "distinct (map JSON_stringify (removeDuplicateRows data))"
  by (simp add: removeDuplicateRows_keepUnseen keepUnseen_distinct)

lemma removeDuplicateRows_card:
  "length (removeDuplicateRows data) = card (JSON_stringify ` set data)"
proof -
  have "length (removeDuplicateRows data) = length (map JSON_stringify (removeDuplicateRows data))"
    by simp
  also have "\<dots> = card (set (map JSON_stringify (removeDuplicateRows data)))"
    using removeDuplicateRows_distinct [of data] by (simp only: distinct_card)
  also have "\<dots> = card (JSON_stringify ` set data)"
    by (simp add: removeDuplicateRows_keepUnseen keepUnseen_keys)
  finally show ?thesis .
qed

subsection \<open>Empty cells, empty rows and the header row\<close>

lemma trim_placeholder: "trim ''N/A'' = ''N/A''"
  by (simp add: trim_def isWhiteSpace_def)

lemma replaceEmptyCell_if:
  "replaceEmptyCell c = (if isEmptyCell c then Text ''N/A'' else c)"
  by (cases c) (simp_all add: EMPTY_CELL_REPLACEMENT_def)

lemma replaceEmptyCell_nonempty: "\<not> isEmptyCell (replaceEmptyCell c)"
  by (simp add: replaceEmptyCell_if trim_placeholder)

lemma replaced_row_nonempty:
  "r \<noteq> [] \<Longrightarrow> \<not> isEmptyRow (map replaceEmptyCell r)"
  by (cases r) (simp_all add: isEmptyRow_def replaceEmptyCell_nonempty)

lemma isEmptyRow_Nil: "isEmptyRow []"
  by (simp add: isEmptyRow_def)

lemma surviving_rows_nonempty:
  "r \<in> set (replaceEmptyCells (removeEmptyRows data)) \<Longrightarrow> \<not> isEmptyRow r"
  by (auto simp: replaceEmptyCells_def removeEmptyRows_def isEmptyRow_Nil
      intro!: replaced_row_nonempty)

lemma detectHeaderRow_first:
  "data = [] \<or> \<not> isEmptyRow (data ! 0) \<Longrightarrow> detectHeaderRow data = 0"
  by (auto simp: detectHeaderRow_def detectHeaderRow_loop.simps [of 0])

lemma detectHeaderRow_cleaned:
  "detectHeaderRow (replaceEmptyCells (removeEmptyRows data)) = 0"
proof (cases "replaceEmptyCells (removeEmptyRows data)")
  case Nil
  then show ?thesis by (simp add: detectHeaderRow_first)
next
  case (Cons r rs)
  then have "r \<in> set (replaceEmptyCells (removeEmptyRows data))" by simp
  then have "\<not> isEmptyRow r" by (rule surviving_rows_nonempty)
  with Cons show ?thesis by (simp add: detectHeaderRow_first)
qed

subsection \<open>The result of \<^verbatim>\<open>cleanData\<close>\<close>

lemma cleanData_Some:
  "g \<noteq> [] \<Longrightarrow> cleanData (Some g) =
     Inr \<lparr> cleanedData = pipeline g, headerRowIndex = detectHeaderRow (pipeline g),
           originalRowCount = length g, cleanedRowCount = length (pipeline g) \<rparr>"
  by (simp add: pipeline_def Let_def)

lemma cleanData_InrD:
  assumes "cleanData (Some g) = Inr r"
  shows "g \<noteq> []" and "cleanedData r = pipeline g"
    and "headerRowIndex r = detectHeaderRow (pipeline g)"
    and "originalRowCount r = length g" and "cleanedRowCount r = length (pipeline g)"
proof -
  show ne: "g \<noteq> []" using assms by auto
  have "r = \<lparr> cleanedData = pipeline g, headerRowIndex = detectHeaderRow (pipeline g),
           originalRowCount = length g, cleanedRowCount = length (pipeline g) \<rparr>"
    using assms cleanData_Some [OF ne] by simp
  then show "cleanedData r = pipeline g" "headerRowIndex r = detectHeaderRow (pipeline g)"
    "originalRowCount r = length g" "cleanedRowCount r = length (pipeline g)"
    by simp_all
qed

lemma pipeline_length: "length (pipeline g) \<le> length g"
proof -
  have "length (pipeline g) \<le> length (removeDuplicateRows (normalizeCasing (trimAllWhitespace g)))"
    by (simp add: pipeline_def replaceEmptyCells_def removeEmptyRows_def)
  also have "\<dots> \<le> length (normalizeCasing (trimAllWhitespace g))"
    by (rule removeDuplicateRows_length)
  also have "\<dots> = length g"
    by (simp add: normalizeCasing_def trimAllWhitespace_def)
  finally show ?thesis .
qed

lemma pipeline_header: "detectHeaderRow (pipeline g) = 0"
  by (simp add: pipeline_def detectHeaderRow_cleaned)

lemma isEmptyCell_iff:
  "isEmptyCell c \<longleftrightarrow> c = Null \<or> c = Undefined \<or> (\<exists>s. c = Text s \<and> length (trim s) = 0)"
  by (cases c) simp_all

lemma pipeline_cells_nonempty:
  assumes "row \<in> set (pipeline g)" and "c \<in> set row"
  shows "\<not> isEmptyCell c"
  using assms by (auto simp: pipeline_def replaceEmptyCells_def replaceEmptyCell_nonempty)

lemma replaceEmptyCells_nth:
  assumes "i < length pre" and "j < length (pre ! i)"
  shows "replaceEmptyCells pre ! i ! j = (if isEmptyCell (pre ! i ! j) then Text ''N/A'' else pre ! i ! j)"
  using assms by (simp add: replaceEmptyCells_def replaceEmptyCell_if)

lemma replaceEmptyCell_unchanged:
  "\<forall>c \<in> set row. \<not> isEmptyCell c \<Longrightarrow> map replaceEmptyCell row = row"
  by (induction row) (simp_all add: replaceEmptyCell_if)

lemma removeEmptyRows_distinct:
  "distinct (map JSON_stringify data) \<Longrightarrow> distinct (map JSON_stringify (removeEmptyRows data))"
  by (simp add: removeEmptyRows_def distinct_map_filter)

subsection \<open>Characters, trimming and the word-start replacement\<close>

lemma ws_not_word: "isWhiteSpace c \<Longrightarrow> \<not> isWordChar c"
  by (auto simp: isWhiteSpace_def isWordChar_def Let_def)

lemma low_ws: "isWhiteSpace (toLowerCaseChar c) = isWhiteSpace c"
  by (auto simp: isWhiteSpace_def toLowerCaseChar_def Let_def)

lemma up_ws: "isWhiteSpace (toUpperCaseChar c) = isWhiteSpace c"
  by (auto simp: isWhiteSpace_def toUpperCaseChar_def Let_def)

lemma low_low: "toLowerCaseChar (toLowerCaseChar c) = toLowerCaseChar c"
  by (auto simp: toLowerCaseChar_def Let_def)

lemma low_up: "toLowerCaseChar (toUpperCaseChar c) = toLowerCaseChar c"
  by (auto simp: toLowerCaseChar_def toUpperCaseChar_def Let_def)

lemma up_word: "isWordChar (toUpperCaseChar c) = isWordChar c"
  by (auto simp: isWordChar_def toUpperCaseChar_def Let_def)

lemma low_word: "isWordChar (toLowerCaseChar c) = isWordChar c"
  by (auto simp: isWordChar_def toLowerCaseChar_def Let_def)


lemma out_ws:
  "isWhiteSpace (if isWordChar c \<and> \<not> prev then toUpperCaseChar c else c) = isWhiteSpace c"
  by (simp add: up_ws)

lemma replaceWordStart_length: "length (replaceWordStart prev s) = length s"
  by (induction s arbitrary: prev) simp_all

lemma replaceWordStart_ws:
  "map isWhiteSpace (replaceWordStart prev s) = map isWhiteSpace s"
  by (induction s arbitrary: prev) (simp_all add: up_ws)

lemma replaceWordStart_take:
  "take n (replaceWordStart prev s) = replaceWordStart prev (take n s)"
proof (induction s arbitrary: n prev)
  case Nil
  show ?case by simp
next
  case (Cons c cs)
  show ?case by (cases n) (simp_all add: Cons.IH)
qed

lemma replaceWordStart_dropWhile:
  "dropWhile isWhiteSpace (replaceWordStart False s) = replaceWordStart False (dropWhile isWhiteSpace s)"
  by (induction s) (auto simp: up_ws ws_not_word)

lemma trailing_length:
  "length (takeWhile P (rev xs)) = length (takeWhile id (rev (map P xs)))"
proof -
  have "takeWhile id (map P (rev xs)) = map P (takeWhile (id \<circ> P) (rev xs))"
    by (rule takeWhile_map)
  then show ?thesis by (simp add: rev_map)
qed

lemma dropEnd_take:
  "rev (dropWhile P (rev xs)) = take (length xs - length (takeWhile id (rev (map P xs)))) xs"
proof -
  have "rev (dropWhile P (rev xs)) = rev (drop (length (takeWhile P (rev xs))) (rev xs))"
    by (simp only: dropWhile_eq_drop)
  also have "\<dots> = take (length xs - length (takeWhile P (rev xs))) xs"
    by (simp add: rev_drop)
  finally show ?thesis using trailing_length [of P xs] by simp
qed

lemma replaceWordStart_dropEnd:
  "rev (dropWhile isWhiteSpace (rev (replaceWordStart prev s)))
   = replaceWordStart prev (rev (dropWhile isWhiteSpace (rev s)))"
  by (simp only: dropEnd_take replaceWordStart_ws replaceWordStart_length replaceWordStart_take)

lemma trim_replaceWordStart:
  "trim (replaceWordStart False s) = replaceWordStart False (trim s)"
  by (simp only: trim_def replaceWordStart_dropWhile replaceWordStart_dropEnd)

lemma trim_toLowerCase: "trim (toLowerCase s) = toLowerCase (trim s)"
proof -
  have comp: "isWhiteSpace \<circ> toLowerCaseChar = isWhiteSpace"
    by (rule ext) (simp add: low_ws)
  have front: "dropWhile isWhiteSpace (map toLowerCaseChar xs) = map toLowerCaseChar (dropWhile isWhiteSpace xs)" for xs
    by (simp only: dropWhile_map comp)
  have "trim (map toLowerCaseChar s)
        = rev (dropWhile isWhiteSpace (map toLowerCaseChar (rev (dropWhile isWhiteSpace s))))"
    by (simp only: trim_def front rev_map)
  also have "\<dots> = map toLowerCaseChar (trim s)"
    by (simp only: trim_def front rev_map)
  finally show ?thesis by (simp only: toLowerCase_def)
qed

lemma dropEnd_front:
  assumes "d = [] \<or> \<not> P (hd d)"
  shows "dropWhile P (rev (dropWhile P (rev d))) = rev (dropWhile P (rev d))"
proof -
  obtain m where m: "rev (dropWhile P (rev d)) = take m d"
    using dropEnd_take [of P d] by blast
  have "take m d = [] \<or> \<not> P (hd (take m d))"
  proof (cases "m = 0 \<or> d = []")
    case True
    then show ?thesis by auto
  next
    case False
    then have "hd (take m d) = hd d" by (cases d; cases m) simp_all
    with False assms show ?thesis by simp
  qed
  then show ?thesis
    by (simp only: m dropWhile_eq_self_iff)
qed

lemma trim_front: "dropWhile isWhiteSpace (trim s) = trim s"
proof -
  have "dropWhile isWhiteSpace s = [] \<or> \<not> isWhiteSpace (hd (dropWhile isWhiteSpace s))"
    using hd_dropWhile [of isWhiteSpace s] by blast
  then show ?thesis
    unfolding trim_def by (rule dropEnd_front)
qed

lemma trim_idem: "trim (trim s) = trim s"
proof -
  have "trim (trim s) = rev (dropWhile isWhiteSpace (rev (trim s)))"
    by (simp only: trim_def [of "trim s"] trim_front)
  also have "\<dots> = trim s"
    by (simp add: trim_def)
  finally show ?thesis .
qed

subsection \<open>Casing of a cell\<close>

lemma caseCell_Text: "caseCell (Text s) = Text (replaceWordStart False (toLowerCase s))"
  by (simp add: caseCell_def toLowerCase_def)

lemma caseCell_other: "\<not> isString c \<Longrightarrow> caseCell c = c"
  by (simp add: caseCell_def)

lemma normalizeCasing_caseCell: "normalizeCasing data = map (map caseCell) data"
  by (simp add: normalizeCasing_def caseCell_def)

lemma trimAllWhitespace_map: "trimAllWhitespace data = map (map trimWhitespace) data"
  by (simp add: trimAllWhitespace_def)

lemma caseCell_trimWhitespace: "caseCell (trimWhitespace c) = trimWhitespace (caseCell c)"
proof (cases c)
  case (Text s)
  then show ?thesis
    by (simp add: caseCell_Text trim_replaceWordStart trim_toLowerCase)
qed (simp_all add: caseCell_def)

lemma replaceWordStart_nth:
  "k < length s \<Longrightarrow>
   replaceWordStart prev s ! k =
     (if isWordChar (s ! k) \<and> \<not> (if k = 0 then prev else isWordChar (s ! (k - 1)))
      then toUpperCaseChar (s ! k) else s ! k)"
proof (induction s arbitrary: prev k)
  case Nil
  then show ?case by simp
next
  case (Cons c cs)
  show ?case
  proof (cases k)
    case 0
    then show ?thesis by simp
  next
    case (Suc m)
    with Cons.prems have "m < length cs" by simp
    from Cons.IH [OF this, of "isWordChar c"] Suc show ?thesis
      by (cases m) simp_all
  qed
qed

lemma replaceWordStart_asciiTitleCase:
  "replaceWordStart False (toLowerCase s) = asciiTitleCase s"
  by (rule nth_equalityI)
    (simp_all add: asciiTitleCase_def Let_def replaceWordStart_length replaceWordStart_nth wordStart_def)

subsection \<open>A second pass over a cleaned grid\<close>

lemma toLowerCase_replaceWordStart:
  "toLowerCase (replaceWordStart prev s) = toLowerCase s"
  by (induction s arbitrary: prev) (simp_all add: toLowerCase_def low_up)

lemma toLowerCase_idem: "toLowerCase (toLowerCase s) = toLowerCase s"
  by (simp add: toLowerCase_def low_low)

lemma caseCell_idem: "caseCell (caseCell c) = caseCell c"
proof (cases c)
  case (Text s)
  then show ?thesis
    by (simp add: caseCell_Text toLowerCase_replaceWordStart toLowerCase_idem)
qed (simp_all add: caseCell_def)

lemma trimWhitespace_idem: "trimWhitespace (trimWhitespace c) = trimWhitespace c"
  by (cases c) (simp_all add: trim_idem)

lemma caseCell_placeholder: "caseCell (Text ''N/A'') = Text ''N/A''"
  by code_simp

text \<open>A cell that the three cell-wise stages leave as it is.\<close>

lemma cleaned_cell_stable:
  fixes c0 :: cell
  defines "c \<equiv> replaceEmptyCell (caseCell (trimWhitespace c0))"
  shows "trimWhitespace c = c" and "caseCell c = c" and "replaceEmptyCell c = c"
proof -
  let ?n = "caseCell (trimWhitespace c0)"
  have n_trim: "trimWhitespace ?n = ?n"
    by (simp add: caseCell_trimWhitespace [symmetric] trimWhitespace_idem)
  have n_case: "caseCell ?n = ?n"
    by (rule caseCell_idem)
  have c_if: "c = (if isEmptyCell ?n then Text ''N/A'' else ?n)"
    by (simp add: c_def replaceEmptyCell_if)
  show "trimWhitespace c = c"
    using n_trim by (simp add: c_if trim_placeholder)
  show "caseCell c = c"
    using n_case by (simp add: c_if caseCell_placeholder)
  show "replaceEmptyCell c = c"
    by (simp add: c_if replaceEmptyCell_if trim_placeholder)
qed

lemma keepUnseen_subset: "row \<in> set (keepUnseen seen data) \<Longrightarrow> row \<in> set data"
  by (induction data arbitrary: seen) (auto split: if_splits)

lemma pipeline_cell_form:
  assumes "row \<in> set (pipeline g)" and "c \<in> set row"
  shows "\<exists>c0. c = replaceEmptyCell (caseCell (trimWhitespace c0))"
  using assms
  by (auto simp: pipeline_def replaceEmptyCells_def removeEmptyRows_def
      removeDuplicateRows_keepUnseen normalizeCasing_caseCell trimAllWhitespace_map
      dest!: keepUnseen_subset) blast


lemma pipeline_fixpoint:
  assumes "distinct (map JSON_stringify (pipeline g))"
  shows "pipeline (pipeline g) = pipeline g"
proof -
  have cells: "trimWhitespace c = c \<and> caseCell c = c \<and> replaceEmptyCell c = c"
    if "row \<in> set (pipeline g)" "c \<in> set row" for row c
    using pipeline_cell_form [OF that] cleaned_cell_stable by blast
  have trimmed: "trimAllWhitespace (pipeline g) = pipeline g"
    unfolding trimAllWhitespace_map by (intro map_idI) (simp add: cells)
  have cased: "normalizeCasing (pipeline g) = pipeline g"
    unfolding normalizeCasing_caseCell by (intro map_idI) (simp add: cells)
  have unique: "removeDuplicateRows (pipeline g) = pipeline g"
    using assms by (simp add: removeDuplicateRows_keepUnseen keepUnseen_id)
  have "\<not> isEmptyRow row" if "row \<in> set (pipeline g)" for row
    using that unfolding pipeline_def by (rule surviving_rows_nonempty)
  then have kept: "removeEmptyRows (pipeline g) = pipeline g"
    by (simp add: removeEmptyRows_def)
  have replaced: "replaceEmptyCells (pipeline g) = pipeline g"
    unfolding replaceEmptyCells_def by (intro map_idI) (simp add: cells)
  show ?thesis
    by (simp add: pipeline_def [of "pipeline g"] trimmed cased unique kept replaced)
qed

subsection \<open>Row strings determine the cell strings\<close>

lemma char_neq_code: "(of_char c :: nat) \<noteq> of_char d \<Longrightarrow> c \<noteq> d"
  by auto

lemma hexDigit_code: "k < 16 \<Longrightarrow> (of_char (hexDigit k) :: nat) = (if k < 10 then 48 + k else 87 + k)"
  by (simp add: hexDigit_def)

lemma hexDigit_plain: "k < 16 \<Longrightarrow> hexDigit k \<noteq> CHR 0x22 \<and> hexDigit k \<noteq> CHR 0x5C"
  by (auto intro!: char_neq_code simp: hexDigit_code split: if_splits)

lemma escapeChar_body:
  "stringBodyLength (escapeChar c @ t) = length (escapeChar c) + stringBodyLength t"
proof -
  have lit: "c \<noteq> CHR 0x22 \<and> c \<noteq> CHR 0x5C" if "(of_char c :: nat) \<noteq> 34" "(of_char c :: nat) \<noteq> 92"
    using that by (auto intro!: char_neq_code)
  have h1: "hexDigit (of_char c div 16) \<noteq> CHR 0x22 \<and> hexDigit (of_char c div 16) \<noteq> CHR 0x5C"
    if "(of_char c :: nat) < 32"
    using that by (intro hexDigit_plain) simp
  have h2: "hexDigit (of_char c mod 16) \<noteq> CHR 0x22 \<and> hexDigit (of_char c mod 16) \<noteq> CHR 0x5C"
    by (intro hexDigit_plain) simp
  show ?thesis
    using lit h1 h2 by (simp add: escapeChar_def Let_def)
qed

lemma escaped_body:
  "stringBodyLength (concat (map escapeChar s) @ CHR 0x22 # rest) = length (concat (map escapeChar s))"
  by (induction s) (simp_all add: escapeChar_body)

lemma tokenLength_quote:
  "tokenLength (quoteJSONString s @ rest) = length (quoteJSONString s)"
  by (simp add: tokenLength_def quoteJSONString_def escaped_body)

lemma tokenLength_plain:
  assumes "t \<noteq> []" and "hd t \<noteq> CHR 0x22"
    and "\<forall>x \<in> set t. x \<noteq> CHR '','' \<and> x \<noteq> CHR '']''"
    and "delimited rest"
  shows "tokenLength (t @ rest) = length t"
proof -
  obtain c cs where t: "t = c # cs" using assms(1) by (cases t) auto
  obtain d ds where rest: "rest = d # ds" and d: "d = CHR '','' \<or> d = CHR '']''"
    using assms(4) by (cases rest) (auto simp: delimited_def)
  have "takeWhile (\<lambda>x. x \<noteq> CHR '','' \<and> x \<noteq> CHR '']'') (t @ rest) = t"
    using assms(3) d by (auto simp: rest)
  then show ?thesis
    using assms(2) by (simp add: tokenLength_def t)
qed

lemma digit_char: "(d::nat) < 10 \<Longrightarrow> isDigit (char_of (48 + d))"
  by (simp add: isDigit_def)

lemma showNat_digits: "\<forall>c \<in> set (showNat n). isDigit c"
proof (induction n rule: showNat.induct)
  case (1 n)
  show ?case
  proof (cases "n < 10")
    case True
    then show ?thesis by (simp add: showNat.simps [of n] digit_char)
  next
    case False
    then show ?thesis using 1 by (simp add: showNat.simps [of n] digit_char)
  qed
qed

lemma showNat_nonempty: "showNat n \<noteq> []"
  by (simp add: showNat.simps [of n])

lemma isDigit_plain:
  "isDigit c \<Longrightarrow> c \<noteq> CHR '','' \<and> c \<noteq> CHR '']'' \<and> c \<noteq> CHR 0x22 \<and> c \<noteq> CHR ''-''
     \<and> c \<noteq> CHR ''n'' \<and> c \<noteq> CHR ''t'' \<and> c \<noteq> CHR ''f''"
  by (auto simp: isDigit_def)

lemma showInt_cases:
  obtains (neg) "i < 0" "showInt i = CHR ''-'' # showNat (nat (- i))"
  | (pos) "0 \<le> i" "showInt i = showNat (nat i)"
  by (cases "i < 0") (simp_all add: showInt_def)

lemma showInt_nonempty: "showInt i \<noteq> []"
  by (cases i rule: showInt_cases) (simp_all add: showNat_nonempty)

lemma showInt_chars: "\<forall>c \<in> set (showInt i). isDigit c \<or> c = CHR ''-''"
  by (cases i rule: showInt_cases) (simp_all add: showNat_digits)

lemma showInt_hd: "isDigit (hd (showInt i)) \<or> hd (showInt i) = CHR ''-''"
  using showInt_chars [of i] showInt_nonempty [of i] hd_in_set [of "showInt i"] by blast

lemma isToken_plain:
  assumes "t \<noteq> []" and "\<forall>x \<in> set t. x \<noteq> CHR '','' \<and> x \<noteq> CHR '']'' \<and> x \<noteq> CHR 0x22"
  shows "isToken t"
proof -
  have first: "hd t \<in> set t" using assms(1) by simp
  have plain: "\<forall>x \<in> set t. x \<noteq> CHR '','' \<and> x \<noteq> CHR '']''"
    using assms(2) by blast
  have quote: "hd t \<noteq> CHR 0x22"
    using assms(2) first by blast
  have "tokenLength (t @ rest) = length t" if "delimited rest" for rest
    using assms(1) quote plain that by (rule tokenLength_plain)
  moreover have "hd t \<noteq> CHR '','' \<and> hd t \<noteq> CHR '']''"
    using plain first by blast
  ultimately show ?thesis
    unfolding isToken_def using assms(1) by blast
qed

lemma isToken_serializeCell: "isToken (serializeCell c)"
proof (cases c)
  case (Text s)
  then show ?thesis
    by (simp add: isToken_def tokenLength_quote) (simp add: quoteJSONString_def)
next
  case (Number n)
  show ?thesis
  proof (cases n)
    case (Finite i)
    have "\<forall>x \<in> set (showInt i). x \<noteq> CHR '','' \<and> x \<noteq> CHR '']'' \<and> x \<noteq> CHR 0x22"
      using showInt_chars [of i] isDigit_plain by auto
    then show ?thesis
      using Number Finite by (simp add: isToken_plain showInt_nonempty)
  qed (simp_all add: Number isToken_plain)
qed (simp_all add: isToken_plain)

lemma joinComma_Cons: "joinComma (x # xs) @ [CHR '']''] = x @ rowTail xs"
  by (cases xs) (simp_all add: rowTail_def)

lemma delimited_rowTail: "delimited (rowTail xs)"
  by (simp add: delimited_def rowTail_def)

lemma token_split:
  assumes "isToken x" and "isToken y" and "delimited r" and "delimited r'"
    and "x @ r = y @ r'"
  shows "x = y \<and> r = r'"
proof -
  have "length x = tokenLength (x @ r)" using assms(1,3) by (simp add: isToken_def)
  also have "\<dots> = tokenLength (y @ r')" by (simp only: assms(5))
  also have "\<dots> = length y" using assms(2,4) by (simp add: isToken_def)
  finally show ?thesis using assms(5) by simp
qed

lemma joinComma_inject:
  assumes "\<forall>t \<in> set xs. isToken t" and "\<forall>t \<in> set ys. isToken t"
    and "joinComma xs @ [CHR '']''] = joinComma ys @ [CHR '']'']"
  shows "xs = ys"
  using assms
proof (induction xs arbitrary: ys)
  case Nil
  show ?case
  proof (cases ys)
    case Nil
    then show ?thesis by simp
  next
    case (Cons y ys')
    with Nil have "[CHR '']''] = y @ rowTail ys'" and "isToken y"
      by (simp_all add: joinComma_Cons)
    then show ?thesis
      by (cases y) (auto simp: isToken_def)
  qed
next
  case (Cons x xs')
  show ?case
  proof (cases ys)
    case Nil
    with Cons.prems have "x @ rowTail xs' = [CHR '']'']" and "isToken x"
      by (simp_all add: joinComma_Cons)
    then show ?thesis
      by (cases x) (auto simp: isToken_def)
  next
    case (Cons y ys')
    with Cons.prems have eq: "x @ rowTail xs' = y @ rowTail ys'" and tok: "isToken x" "isToken y"
      by (simp_all add: joinComma_Cons)
    from token_split [OF tok delimited_rowTail delimited_rowTail eq]
    have xy: "x = y" and tails: "rowTail xs' = rowTail ys'" by simp_all
    have "xs' = ys'"
    proof (cases "xs' = []")
      case True
      with tails show ?thesis by (auto simp: rowTail_def split: if_splits)
    next
      case False
      with tails have "ys' \<noteq> []" and "joinComma xs' @ [CHR '']''] = joinComma ys' @ [CHR '']'']"
        by (auto simp: rowTail_def split: if_splits)
      then show ?thesis
        using Cons.IH [of ys'] Cons.prems Cons by simp
    qed
    with xy Cons show ?thesis by simp
  qed
qed

lemma JSON_stringify_eq_iff:
  "JSON_stringify r1 = JSON_stringify r2 \<longleftrightarrow> map serializeCell r1 = map serializeCell r2"
proof
  assume "JSON_stringify r1 = JSON_stringify r2"
  then have "joinComma (map serializeCell r1) @ [CHR '']''] = joinComma (map serializeCell r2) @ [CHR '']'']"
    by (simp add: JSON_stringify_def)
  then show "map serializeCell r1 = map serializeCell r2"
    by (intro joinComma_inject) (auto simp: isToken_serializeCell)
next
  assume "map serializeCell r1 = map serializeCell r2"
  then show "JSON_stringify r1 = JSON_stringify r2"
    by (simp add: JSON_stringify_def)
qed

lemma hexValue_hexDigit: "k < 16 \<Longrightarrow> hexValue (hexDigit k) = k"
  by (simp add: hexValue_def hexDigit_def Let_def)

lemma char_eq_code: "(of_char c :: nat) = of_char d \<Longrightarrow> c = d"
  by simp

lemma unescapeHead_escapeChar: "unescapeHead (escapeChar c @ t) = (c, t)"
proof -
  let ?n = "of_char c :: nat"
  consider (named) "?n = 8 \<or> ?n = 9 \<or> ?n = 10 \<or> ?n = 12 \<or> ?n = 13 \<or> ?n = 34 \<or> ?n = 92"
    | (control) "?n < 32" "?n \<noteq> 8" "?n \<noteq> 9" "?n \<noteq> 10" "?n \<noteq> 12" "?n \<noteq> 13"
    | (literal) "32 \<le> ?n" "?n \<noteq> 34" "?n \<noteq> 92"
    by linarith
  then show ?thesis
  proof cases
    case named
    have "?n = 8 \<Longrightarrow> c = CHR 0x08" "?n = 9 \<Longrightarrow> c = CHR 0x09" "?n = 10 \<Longrightarrow> c = CHR 0x0A"
      "?n = 12 \<Longrightarrow> c = CHR 0x0C" "?n = 13 \<Longrightarrow> c = CHR 0x0D" "?n = 34 \<Longrightarrow> c = CHR 0x22"
      "?n = 92 \<Longrightarrow> c = CHR 0x5C"
      by (rule char_eq_code, simp)+
    with named have "c = CHR 0x08 \<or> c = CHR 0x09 \<or> c = CHR 0x0A \<or> c = CHR 0x0C \<or> c = CHR 0x0D
        \<or> c = CHR 0x22 \<or> c = CHR 0x5C"
      by blast
    then show ?thesis
      by (elim disjE) (simp_all add: escapeChar_def unescapeHead_def namedEscape_def Let_def)
  next
    case control
    have "16 * (?n div 16) + ?n mod 16 = ?n" by simp
    then have "char_of (16 * hexValue (hexDigit (?n div 16)) + hexValue (hexDigit (?n mod 16))) = c"
      using control(1) by (simp add: hexValue_hexDigit)
    then show ?thesis
      using control by (simp add: escapeChar_def unescapeHead_def Let_def)
  next
    case literal
    then have "c \<noteq> CHR 0x5C" by (auto intro!: char_neq_code)
    then show ?thesis
      using literal by (simp add: escapeChar_def unescapeHead_def Let_def)
  qed
qed

lemma escapeChar_nonempty: "escapeChar c \<noteq> []"
  by (simp add: escapeChar_def Let_def)

lemma escaped_inject:
  "concat (map escapeChar s1) = concat (map escapeChar s2) \<Longrightarrow> s1 = s2"
proof (induction s1 arbitrary: s2)
  case Nil
  then show ?case by (cases s2) (simp_all add: escapeChar_nonempty)
next
  case (Cons c1 s1')
  show ?case
  proof (cases s2)
    case Nil
    with Cons.prems show ?thesis by (simp add: escapeChar_nonempty)
  next
    case (Cons c2 s2')
    with Cons.prems
    have "unescapeHead (escapeChar c1 @ concat (map escapeChar s1'))
          = unescapeHead (escapeChar c2 @ concat (map escapeChar s2'))"
      by simp
    then have "c1 = c2" and "concat (map escapeChar s1') = concat (map escapeChar s2')"
      by (simp_all add: unescapeHead_escapeChar)
    with Cons.IH Cons show ?thesis by simp
  qed
qed

lemma quoteJSONString_inject: "quoteJSONString s1 = quoteJSONString s2 \<longleftrightarrow> s1 = s2"
  by (auto simp: quoteJSONString_def dest: escaped_inject)

lemma readNat_snoc: "readNat (ds @ [d]) = 10 * readNat ds + (of_char d - 48)"
  by (simp add: readNat_def)

lemma readNat_showNat: "readNat (showNat n) = n"
proof (induction n rule: showNat.induct)
  case (1 n)
  show ?case
  proof (cases "n < 10")
    case True
    then show ?thesis by (simp add: showNat.simps [of n] readNat_def)
  next
    case False
    then show ?thesis using 1 by (simp add: showNat.simps [of n] readNat_snoc)
  qed
qed

lemma showNat_inject: "showNat m = showNat n \<Longrightarrow> m = n"
  by (metis readNat_showNat)

lemma showNat_hd: "isDigit (hd (showNat n))"
  using showNat_digits [of n] showNat_nonempty [of n] hd_in_set [of "showNat n"] by blast

lemma showInt_inject: "showInt i = showInt j \<longleftrightarrow> i = j"
proof
  assume eq: "showInt i = showInt j"
  show "i = j"
  proof (cases i rule: showInt_cases)
    case neg
    show ?thesis
    proof (cases j rule: showInt_cases)
      case neg
      with \<open>i < 0\<close> \<open>showInt i = CHR ''-'' # showNat (nat (- i))\<close> eq
      have "nat (- i) = nat (- j)" by (auto dest: showNat_inject)
      with \<open>i < 0\<close> neg show ?thesis by simp
    next
      case pos
      with neg eq have "hd (showNat (nat j)) = CHR ''-''" by (metis list.sel(1))
      then show ?thesis using showNat_hd [of "nat j"] isDigit_plain by metis
    qed
  next
    case pos
    show ?thesis
    proof (cases j rule: showInt_cases)
      case neg
      with pos eq have "hd (showNat (nat i)) = CHR ''-''" by (metis list.sel(1))
      then show ?thesis using showNat_hd [of "nat i"] isDigit_plain by metis
    next
      case pos
      with \<open>0 \<le> i\<close> \<open>showInt i = showNat (nat i)\<close> eq
      have "nat i = nat j" by (auto dest: showNat_inject)
      with \<open>0 \<le> i\<close> pos show ?thesis by simp
    qed
  qed
qed simp

lemma showInt_first: "hd (showInt i) \<noteq> CHR 0x22 \<and> hd (showInt i) \<noteq> CHR ''n''
    \<and> hd (showInt i) \<noteq> CHR ''t'' \<and> hd (showInt i) \<noteq> CHR ''f''"
  using showInt_hd [of i] isDigit_plain [of "hd (showInt i)"] by auto

lemma showInt_not_literal:
  "showInt i \<noteq> ''null''" "showInt i \<noteq> ''true''" "showInt i \<noteq> ''false''"
  "showInt i \<noteq> quoteJSONString s"
  using showInt_first [of i] by (auto simp: quoteJSONString_def)

lemmas showInt_not_literal_sym = showInt_not_literal [THEN not_sym]

lemma quoteJSONString_not_literal:
  "quoteJSONString s \<noteq> ''null''" "quoteJSONString s \<noteq> ''true''" "quoteJSONString s \<noteq> ''false''"
  "''null'' \<noteq> quoteJSONString s" "''true'' \<noteq> quoteJSONString s" "''false'' \<noteq> quoteJSONString s"
  by (simp_all add: quoteJSONString_def)

lemma serializeCell_Text_iff: "serializeCell (Text s) = serializeCell c \<longleftrightarrow> c = Text s"
proof (cases c)
  case (Number n)
  then show ?thesis
    by (cases n) (simp_all add: showInt_not_literal showInt_not_literal_sym quoteJSONString_not_literal)
qed (auto simp: quoteJSONString_inject quoteJSONString_not_literal)

lemma serializeCell_Finite_iff:
  "serializeCell (Number (Finite i)) = serializeCell c \<longleftrightarrow> c = Number (Finite i)"
proof (cases c)
  case (Number n)
  then show ?thesis
    by (cases n) (auto simp: showInt_not_literal showInt_not_literal_sym showInt_inject)
qed (simp_all add: showInt_not_literal showInt_not_literal_sym)

lemma serializeCell_Boolean_iff:
  "serializeCell (Boolean b) = serializeCell c \<longleftrightarrow> c = Boolean b"
proof (cases c)
  case (Number n)
  then show ?thesis
    by (cases n) (simp_all add: showInt_not_literal showInt_not_literal_sym)
qed (auto simp: quoteJSONString_not_literal)

lemma serializeCell_null_iff:
  "serializeCell c = ''null'' \<longleftrightarrow>
     c = Null \<or> c = Undefined \<or> c = Number NaN \<or> c = Number PosInfinity \<or> c = Number NegInfinity"
proof (cases c)
  case (Number n)
  then show ?thesis
    by (cases n) (simp_all add: showInt_not_literal showInt_not_literal_sym)
qed (simp_all add: quoteJSONString_not_literal)

lemma keepUnseen_index:
  "keepUnseen seen data =
     map (\<lambda>i. data ! i)
       (filter (\<lambda>i. JSON_stringify (data ! i) \<notin> seen
                    \<and> (\<forall>j < i. JSON_stringify (data ! j) \<noteq> JSON_stringify (data ! i)))
          [0..<length data])"
proof (induction data arbitrary: seen)
  case Nil
  show ?case by simp
next
  case (Cons r rs)
  let ?k = JSON_stringify
  let ?Q = "\<lambda>i. ?k ((r # rs) ! i) \<notin> seen \<and> (\<forall>j < i. ?k ((r # rs) ! j) \<noteq> ?k ((r # rs) ! i))"
  have idx: "[0..<length (r # rs)] = 0 # map Suc [0..<length rs]"
    by (simp add: upt_conv_Cons map_Suc_upt del: upt_Suc)
  let ?Q' = "\<lambda>i. ?k (rs ! i) \<notin> insert (?k r) seen \<and> (\<forall>j < i. ?k (rs ! j) \<noteq> ?k (rs ! i))"
  have QSuc: "?Q (Suc i) = ?Q' i" for i
    by (auto simp: All_less_Suc2)
  have comp: "?Q \<circ> Suc = ?Q'"
    unfolding comp_def by (rule ext) (rule QSuc)
  have shift: "filter ?Q (map Suc [0..<length rs]) = map Suc (filter ?Q' [0..<length rs])"
    by (simp only: filter_map comp)
  have "map (\<lambda>i. (r # rs) ! i) (map Suc (filter ?Q' [0..<length rs]))
        = map (\<lambda>i. rs ! i) (filter ?Q' [0..<length rs])"
    by simp
  then have tail: "map (\<lambda>i. (r # rs) ! i) (filter ?Q (map Suc [0..<length rs]))
        = keepUnseen (insert (?k r) seen) rs"
    by (simp only: shift Cons.IH [of "insert (?k r) seen"])
  show ?case
  proof (cases "?k r \<in> seen")
    case True
    then have "insert (?k r) seen = seen" by auto
    with True tail show ?thesis
      by (simp only: idx keepUnseen.simps if_True list.map filter.simps nth_Cons_0) simp
  next
    case False
    with tail show ?thesis
      by (simp only: idx keepUnseen.simps if_False list.map filter.simps nth_Cons_0) simp
  qed
qed

lemma removeDuplicateRows_index:
  "removeDuplicateRows data =
     map (\<lambda>i. data ! i)
       (filter (\<lambda>i. \<forall>j < i. JSON_stringify (data ! j) \<noteq> JSON_stringify (data ! i))
          [0..<length data])"
  by (simp add: removeDuplicateRows_keepUnseen keepUnseen_index)

subsection \<open>The functions over arbitrary array elements\<close>

lemma serializeValues_cells: "serializeValues (map Cell r) = Inr (map serializeCell r)"
  by (induction r) simp_all

lemma JSON_stringify_any_cells: "JSON_stringify_any (map Cell r) = Inr (JSON_stringify r)"
  by (simp add: JSON_stringify_any_def JSON_stringify_def serializeValues_cells)

lemma removeDuplicateRows_any_loop_cells:
  "removeDuplicateRows_any_loop seen (map (map Cell) uniqueRows) (map (map Cell) data)
   = Inr (map (map Cell) (removeDuplicateRows_loop seen uniqueRows data))"
proof (induction data arbitrary: seen uniqueRows)
  case Nil
  show ?case by simp
next
  case (Cons row rest)
  have "map (map Cell) uniqueRows @ [map Cell row] = map (map Cell) (uniqueRows @ [row])"
    by simp
  then show ?case
    using Cons.IH [of "insert (JSON_stringify row) seen" "uniqueRows @ [row]"] Cons.IH [of seen uniqueRows]
    by (simp add: JSON_stringify_any_cells Let_def del: map_append)
qed

lemma removeDuplicateRows_any_cells:
  "removeDuplicateRows_any (map (map Cell) data) = Inr (map (map Cell) (removeDuplicateRows data))"
  using removeDuplicateRows_any_loop_cells [of "{}" "[]" data]
  by (simp add: removeDuplicateRows_any_def removeDuplicateRows_def)

lemma trimAllWhitespace_any_cells:
  "trimAllWhitespace_any (map (map Cell) data) = map (map Cell) (trimAllWhitespace data)"
  by (simp add: trimAllWhitespace_any_def trimAllWhitespace_def)

lemma normalizeCasing_any_cells:
  "normalizeCasing_any (map (map Cell) data) = map (map Cell) (normalizeCasing data)"
  by (simp add: normalizeCasing_any_def normalizeCasing_def)

lemma isEmptyRow_any_cells: "isEmptyRow_any (map Cell r) = isEmptyRow r"
  by (simp add: isEmptyRow_any_def isEmptyRow_def list_all_iff)

lemma removeEmptyRows_any_cells:
  "removeEmptyRows_any (map (map Cell) data) = map (map Cell) (removeEmptyRows data)"
  by (simp add: removeEmptyRows_any_def removeEmptyRows_def filter_map comp_def isEmptyRow_any_cells)

lemma replaceEmptyCells_any_cells:
  "replaceEmptyCells_any (map (map Cell) data) = map (map Cell) (replaceEmptyCells data)"
  by (simp add: replaceEmptyCells_any_def replaceEmptyCells_def)

lemma detectHeaderRow_any_loop_cells:
  "detectHeaderRow_any_loop i (map (map Cell) data) = detectHeaderRow_loop i data"
proof (induction i data rule: detectHeaderRow_loop.induct)
  case (1 i data)
  show ?case
  proof (cases "i < length data")
    case True
    then show ?thesis
      using 1
      by (simp add: detectHeaderRow_any_loop.simps [of i] detectHeaderRow_loop.simps [of i]
          isEmptyRow_any_cells)
  next
    case False
    then show ?thesis
      by (simp add: detectHeaderRow_any_loop.simps [of i] detectHeaderRow_loop.simps [of i])
  qed
qed

lemma detectHeaderRow_any_cells:
  "detectHeaderRow_any (map (map Cell) data) = detectHeaderRow data"
  by (simp add: detectHeaderRow_any_def detectHeaderRow_def detectHeaderRow_any_loop_cells)

lemma cleanData_any_cells:
  "cleanData_any (Some (map (map Cell) g)) =
     (case cleanData (Some g) of
        Inl e \<Rightarrow> Inl e
      | Inr r \<Rightarrow> Inr \<lparr> cleanedData_any = map (map Cell) (cleanedData r),
                        headerRowIndex_any = headerRowIndex r,
                        originalRowCount_any = originalRowCount r,
                        cleanedRowCount_any = cleanedRowCount r \<rparr>)"
  by (simp add: Let_def trimAllWhitespace_any_cells normalizeCasing_any_cells
      removeDuplicateRows_any_cells removeEmptyRows_any_cells replaceEmptyCells_any_cells
      detectHeaderRow_any_cells)

text \<open>A grid without BigInt elements is a grid of cells.\<close>

lemma row_of_cells: "\<forall>v \<in> set row. \<not> isBigInt v \<Longrightarrow> \<exists>r. row = map Cell r"
proof (induction row)
  case Nil
  show ?case by simp
next
  case (Cons v vs)
  then obtain r where "vs = map Cell r" by auto
  moreover obtain c where "v = Cell c" using Cons.prems by (cases v) auto
  ultimately have "v # vs = map Cell (c # r)" by simp
  then show ?case by (rule exI)
qed

lemma grid_of_cells:
  "\<forall>row \<in> set g. \<forall>v \<in> set row. \<not> isBigInt v \<Longrightarrow> \<exists>g0. g = map (map Cell) g0"
proof (induction g)
  case Nil
  show ?case by simp
next
  case (Cons row rows)
  then obtain g0 where "rows = map (map Cell) g0" by auto
  moreover obtain r where "row = map Cell r" using Cons.prems row_of_cells [of row] by auto
  ultimately have "row # rows = map (map Cell) (r # g0)" by simp
  then show ?case by (rule exI)
qed

text \<open>A BigInt element anywhere makes the duplicate step throw.\<close>

lemma serializeValues_BigInt:
  "\<exists>v \<in> set row. isBigInt v \<Longrightarrow>
   serializeValues row = Inl (TypeError ''Do not know how to serialize a BigInt'')"
proof (induction row)
  case Nil
  then show ?case by simp
next
  case (Cons v vs)
  show ?case
  proof (cases v)
    case (BigInt n)
    then show ?thesis by simp
  next
    case (Cell c)
    with Cons show ?thesis by simp
  qed
qed

lemma serializeValues_outcome:
  "serializeValues row = Inl (TypeError ''Do not know how to serialize a BigInt'')
   \<or> (\<exists>ss. serializeValues row = Inr ss)"
proof (induction row)
  case Nil
  show ?case by simp
next
  case (Cons v vs)
  then show ?case by (cases v) auto
qed

lemma JSON_stringify_any_outcome:
  "JSON_stringify_any row = Inl (TypeError ''Do not know how to serialize a BigInt'')
   \<or> (\<exists>s. JSON_stringify_any row = Inr s)"
  using serializeValues_outcome [of row] by (auto simp: JSON_stringify_any_def)

lemma JSON_stringify_any_BigInt:
  "\<exists>v \<in> set row. isBigInt v \<Longrightarrow>
   JSON_stringify_any row = Inl (TypeError ''Do not know how to serialize a BigInt'')"
  by (simp add: JSON_stringify_any_def serializeValues_BigInt)

lemma removeDuplicateRows_any_loop_BigInt:
  "\<exists>row \<in> set data. \<exists>v \<in> set row. isBigInt v \<Longrightarrow>
   removeDuplicateRows_any_loop seen uniqueRows data
     = Inl (TypeError ''Do not know how to serialize a BigInt'')"
proof (induction data arbitrary: seen uniqueRows)
  case Nil
  then show ?case by simp
next
  case (Cons row rest)
  show ?case
  proof (cases "\<exists>v \<in> set row. isBigInt v")
    case True
    then show ?thesis by (simp add: JSON_stringify_any_BigInt)
  next
    case False
    with Cons.prems have later: "\<exists>row \<in> set rest. \<exists>v \<in> set row. isBigInt v" by simp
    from JSON_stringify_any_outcome [of row] show ?thesis
    proof
      assume "JSON_stringify_any row = Inl (TypeError ''Do not know how to serialize a BigInt'')"
      then show ?thesis by simp
    next
      assume "\<exists>s. JSON_stringify_any row = Inr s"
      then obtain s where "JSON_stringify_any row = Inr s" ..
      then show ?thesis by (simp add: Cons.IH [OF later])
    qed
  qed
qed

lemma trimWhitespace_any_BigInt: "isBigInt (trimWhitespace_any v) = isBigInt v"
  by (cases v) simp_all

lemma normalized_any_BigInt:
  "(\<exists>row \<in> set (normalizeCasing_any (trimAllWhitespace_any g)). \<exists>v \<in> set row. isBigInt v)
   \<longleftrightarrow> (\<exists>row \<in> set g. \<exists>v \<in> set row. isBigInt v)"
proof -
  have cell: "isBigInt (case trimWhitespace_any v of
        Cell cell \<Rightarrow> Cell (if isString cell \<and> stringLength cell > 0 then toTitleCase cell else cell)
      | BigInt n \<Rightarrow> BigInt n) = isBigInt v" for v
    by (cases v) simp_all
  show ?thesis
    by (simp add: normalizeCasing_any_def trimAllWhitespace_any_def cell)
qed

lemma cleanData_any_BigInt:
  assumes "g \<noteq> []" and "\<exists>row \<in> set g. \<exists>v \<in> set row. isBigInt v"
  shows "cleanData_any (Some g) = Inl (TypeError ''Do not know how to serialize a BigInt'')"
proof -
  have "\<exists>row \<in> set (normalizeCasing_any (trimAllWhitespace_any g)). \<exists>v \<in> set row. isBigInt v"
    using assms(2) by (simp only: normalized_any_BigInt)
  then have "removeDuplicateRows_any (normalizeCasing_any (trimAllWhitespace_any g))
      = Inl (TypeError ''Do not know how to serialize a BigInt'')"
    unfolding removeDuplicateRows_any_def by (rule removeDuplicateRows_any_loop_BigInt)
  then show ?thesis
    using assms(1) by (simp add: Let_def)
qed

lemma cleanData_any_no_BigInt:
  assumes "g \<noteq> []" and "\<forall>row \<in> set g. \<forall>v \<in> set row. \<not> isBigInt v"
  shows "\<exists>r. cleanData_any (Some g) = Inr r"
proof -
  obtain g0 where g0: "g = map (map Cell) g0"
    using grid_of_cells [OF assms(2)] ..
  with assms(1) have "g0 \<noteq> []" by auto
  then obtain r where "cleanData (Some g0) = Inr r"
    by (auto simp: Let_def)
  then show ?thesis
    unfolding g0 cleanData_any_cells by simp
qed

subsection \<open>The functions of the module and the stages of the specification\<close>

lemma spec_empty_isEmptyCell: "spec_empty c = isEmptyCell c"
  by (cases c) (simp_all add: spec_empty_def)

lemma trimAllWhitespace_spec: "trimAllWhitespace g = spec_trim g"
proof -
  have "trimWhitespace c = (case c of Text s \<Rightarrow> Text (trim s) | _ \<Rightarrow> c)" for c
    by (cases c) simp_all
  then show ?thesis
    by (simp add: trimAllWhitespace_def spec_trim_def)
qed

lemma earlier_keys:
  assumes "i \<le> length g"
  shows "(\<forall>j < i. JSON_stringify (g ! j) \<noteq> JSON_stringify (g ! i))
         \<longleftrightarrow> JSON_stringify (g ! i) \<notin> JSON_stringify ` set (take i g)"
proof -
  have "set (take i g) = (\<lambda>j. g ! j) ` {0..<i}"
    using assms by (simp add: nth_image)
  then have "JSON_stringify ` set (take i g) = {JSON_stringify (g ! j) | j. j < i}"
    by auto
  then show ?thesis by (simp only:) auto
qed

lemma removeDuplicateRows_spec: "removeDuplicateRows g = spec_dedup g"
proof -
  have "filter (\<lambda>i. \<forall>j < i. JSON_stringify (g ! j) \<noteq> JSON_stringify (g ! i)) [0..<length g]
        = filter (\<lambda>i. JSON_stringify (g ! i) \<notin> JSON_stringify ` set (take i g)) [0..<length g]"
    by (rule filter_cong) (simp_all add: earlier_keys)
  then show ?thesis
    by (simp only: removeDuplicateRows_index spec_dedup_def)
qed

lemma isEmptyRow_spec: "isEmptyRow row \<longleftrightarrow> \<not> (\<exists>c \<in> set row. \<not> spec_empty c)"
  by (simp add: isEmptyRow_def list_all_iff spec_empty_isEmptyCell)

lemma removeEmptyRows_spec: "removeEmptyRows g = spec_dropEmptyRows g"
  by (simp add: removeEmptyRows_def spec_dropEmptyRows_def isEmptyRow_spec)

lemma replaceEmptyCells_spec: "replaceEmptyCells g = spec_fillEmpty g"
  by (simp add: replaceEmptyCells_def spec_fillEmpty_def replaceEmptyCell_if spec_empty_isEmptyCell)

lemma detectHeaderRow_loop_spec:
  "detectHeaderRow_loop i g =
     (case filter (\<lambda>k. \<exists>c \<in> set (g ! k). \<not> spec_empty c) [i..<length g] of
        [] \<Rightarrow> 0
      | k # _ \<Rightarrow> k)"
proof (induction i g rule: detectHeaderRow_loop.induct)
  case (1 i g)
  show ?case
  proof (cases "i < length g")
    case True
    then have range: "[i..<length g] = i # [i + 1..<length g]"
      by (simp add: upt_conv_Cons)
    show ?thesis
    proof (cases "isEmptyRow (g ! i)")
      case True
      with \<open>i < length g\<close> 1 show ?thesis
        by (simp add: detectHeaderRow_loop.simps [of i] range isEmptyRow_spec del: upt_Suc)
    next
      case False
      with \<open>i < length g\<close> show ?thesis
        by (simp add: detectHeaderRow_loop.simps [of i] range isEmptyRow_spec del: upt_Suc)
    qed
  next
    case False
    then show ?thesis
      by (simp add: detectHeaderRow_loop.simps [of i])
  qed
qed

lemma detectHeaderRow_spec: "detectHeaderRow g = spec_header g"
  by (simp add: detectHeaderRow_def spec_header_def detectHeaderRow_loop_spec)

lemma normalizeCasing_cells:
  "length (normalizeCasing g) = length g
   \<and> (\<forall>i < length g. length (normalizeCasing g ! i) = length (g ! i)
        \<and> (\<forall>j < length (g ! i).
              (case g ! i ! j of
                 Text s \<Rightarrow> onlyAsciiLetters s \<longrightarrow> normalizeCasing g ! i ! j = Text (asciiTitleCase s)
               | c \<Rightarrow> normalizeCasing g ! i ! j = c)))"
proof -
  have cell: "(case c of Text s \<Rightarrow> onlyAsciiLetters s \<longrightarrow> caseCell c = Text (asciiTitleCase s)
                | c' \<Rightarrow> caseCell c = c')" for c
  proof (cases c)
    case (Text s)
    then show ?thesis
      by (simp add: caseCell_Text replaceWordStart_asciiTitleCase)
  qed (simp_all add: caseCell_def)
  have cased: "normalizeCasing g ! i ! j = caseCell (g ! i ! j)"
    if "i < length g" "j < length (g ! i)" for i j
    using that by (simp add: normalizeCasing_caseCell)
  have "case g ! i ! j of
          Text s \<Rightarrow> onlyAsciiLetters s \<longrightarrow> normalizeCasing g ! i ! j = Text (asciiTitleCase s)
        | c \<Rightarrow> normalizeCasing g ! i ! j = c"
    if "i < length g" "j < length (g ! i)" for i j
    using cell [of "g ! i ! j"] unfolding cased [OF that] .
  moreover have "length (normalizeCasing g ! i) = length (g ! i)" if "i < length g" for i
    using that by (simp add: normalizeCasing_caseCell)
  moreover have "length (normalizeCasing g) = length g"
    by (simp add: normalizeCasing_caseCell)
  ultimately show ?thesis by blast
qed

lemma asciiLetter_word:
  "(isLetter c \<longrightarrow> (of_char c :: nat) < 128) \<Longrightarrow>
   isWordChar c \<longleftrightarrow> isLetter c \<or> isDigit c \<or> c = CHR ''_''"
proof -
  have "c = CHR ''_'' \<longleftrightarrow> (of_char c :: nat) = 95"
    using of_char_eq_iff [of c "CHR ''_''", where ?'a = nat] by simp
  then show "(isLetter c \<longrightarrow> (of_char c :: nat) < 128) \<Longrightarrow>
      isWordChar c \<longleftrightarrow> isLetter c \<or> isDigit c \<or> c = CHR ''_''"
    by (auto simp: isWordChar_def isLetter_def isDigit_def Let_def)
qed

section \<open>The claims\<close>

subsection \<open>C1: when \<^verbatim>\<open>cleanData\<close> fails\<close>

text \<open>
  C1 as stated fails on the cell kinds: a grid with one row that holds a BigInt is not
  absent and has a row, and \<^verbatim>\<open>cleanData\<close> raises on it, with the \<^verbatim>\<open>TypeError\<close> of
  \<^verbatim>\<open>JSON.stringify\<close> in the duplicate step.
\<close>

theorem cleanData_any_counterexample:
  "cleanData_any (Some [[Cell (Text ''x''), BigInt 1]])
     = Inl (TypeError ''Do not know how to serialize a BigInt'')
   \<and> [[Cell (Text ''x''), BigInt 1]] \<noteq> []"
  by code_simp

text \<open>
  C1, amended. \<^verbatim>\<open>cleanData\<close> raises its error \<^verbatim>\<open>No data provided to clean.\<close> exactly
  when the grid is absent or has no rows, and then returns no result. On a grid with
  at least one row whose elements are all cells of the data model (strings, numbers,
  booleans, \<^verbatim>\<open>null\<close>, \<^verbatim>\<open>undefined\<close>) it returns a result, the one of the functions over
  cells. On a grid with at least one row it raises exactly when some element is a
  BigInt, and then with the \<^verbatim>\<open>TypeError\<close> of \<^verbatim>\<open>JSON.stringify\<close>.
\<close>

theorem cleanData_outcome:
  "(cleanData_any d = Inl (Error ''No data provided to clean.'') \<longleftrightarrow> (d = None \<or> d = Some []))
   \<and> (cleanData_any d = Inl (TypeError ''Do not know how to serialize a BigInt'') \<longleftrightarrow>
        (\<exists>g. d = Some g \<and> g \<noteq> [] \<and> (\<exists>row \<in> set g. \<exists>v \<in> set row. isBigInt v)))
   \<and> ((\<exists>r. cleanData_any d = Inr r) \<longleftrightarrow>
        (\<exists>g. d = Some g \<and> g \<noteq> [] \<and> (\<forall>row \<in> set g. \<forall>v \<in> set row. \<not> isBigInt v)))
   \<and> cleanData_any (Some (map (map Cell) g0)) =
        (case cleanData (Some g0) of
           Inl e \<Rightarrow> Inl e
         | Inr r \<Rightarrow> Inr \<lparr> cleanedData_any = map (map Cell) (cleanedData r),
                           headerRowIndex_any = headerRowIndex r,
                           originalRowCount_any = originalRowCount r,
                           cleanedRowCount_any = cleanedRowCount r \<rparr>)
   \<and> (cleanData d0 = Inl (Error ''No data provided to clean.'') \<longleftrightarrow> (d0 = None \<or> d0 = Some []))
   \<and> ((\<exists>e. cleanData d0 = Inl e) \<longleftrightarrow> (d0 = None \<or> d0 = Some []))
   \<and> ((\<exists>r. cleanData d0 = Inr r) \<longleftrightarrow> (\<exists>g. d0 = Some g \<and> g \<noteq> []))"
proof -
  have base: "(cleanData d0 = Inl (Error ''No data provided to clean.'') \<longleftrightarrow> (d0 = None \<or> d0 = Some []))
      \<and> ((\<exists>e. cleanData d0 = Inl e) \<longleftrightarrow> (d0 = None \<or> d0 = Some []))
      \<and> ((\<exists>r. cleanData d0 = Inr r) \<longleftrightarrow> (\<exists>g. d0 = Some g \<and> g \<noteq> []))"
    by (cases d0) (auto simp: Let_def)
  have none: "cleanData_any None = Inl (Error ''No data provided to clean.'')"
    by simp
  have wide: "(cleanData_any d = Inl (Error ''No data provided to clean.'') \<longleftrightarrow> (d = None \<or> d = Some []))
      \<and> (cleanData_any d = Inl (TypeError ''Do not know how to serialize a BigInt'') \<longleftrightarrow>
          (\<exists>g. d = Some g \<and> g \<noteq> [] \<and> (\<exists>row \<in> set g. \<exists>v \<in> set row. isBigInt v)))
      \<and> ((\<exists>r. cleanData_any d = Inr r) \<longleftrightarrow>
          (\<exists>g. d = Some g \<and> g \<noteq> [] \<and> (\<forall>row \<in> set g. \<forall>v \<in> set row. \<not> isBigInt v)))"
  proof (cases d)
    case None
    then show ?thesis by (simp add: none)
  next
    case (Some g)
    show ?thesis
    proof (cases "g = []")
      case True
      with Some show ?thesis by simp
    next
      case ne: False
      show ?thesis
      proof (cases "\<exists>row \<in> set g. \<exists>v \<in> set row. isBigInt v")
        case True
        then have "cleanData_any (Some g) = Inl (TypeError ''Do not know how to serialize a BigInt'')"
          using ne by (intro cleanData_any_BigInt)
        with Some ne True show ?thesis by auto
      next
        case False
        then obtain r where "cleanData_any (Some g) = Inr r"
          using ne cleanData_any_no_BigInt [of g] by auto
        with Some ne False show ?thesis by auto
      qed
    qed
  qed
  show ?thesis
    using wide base by (simp only: cleanData_any_cells)
qed

theorem cleanData_outcome_witness:
  "cleanData_any None = Inl (Error ''No data provided to clean.'')
   \<and> cleanData_any (Some []) = Inl (Error ''No data provided to clean.'')
   \<and> cleanData_any (Some [[Cell (Text ''x''), BigInt 1]])
       = Inl (TypeError ''Do not know how to serialize a BigInt'')
   \<and> (\<exists>r. cleanData_any (Some [[Cell (Text [CHR 0x01]), Cell (Number NaN), Cell Undefined]]) = Inr r)
   \<and> (\<exists>r. cleanData (Some [[Text [CHR 0x01], Number NaN, Undefined]]) = Inr r)"
proof -
  note t = cleanData_outcome
  have a: "cleanData_any None = Inl (Error ''No data provided to clean.'')"
    using t [of None "[]" None] by simp
  have b: "cleanData_any (Some []) = Inl (Error ''No data provided to clean.'')"
    using t [of "Some []" "[]" None] by simp
  have c: "cleanData_any (Some [[Cell (Text ''x''), BigInt 1]])
       = Inl (TypeError ''Do not know how to serialize a BigInt'')"
    using t [of "Some [[Cell (Text ''x''), BigInt 1]]" "[]" None] by simp
  have d: "\<exists>r. cleanData_any (Some [[Cell (Text [CHR 0x01]), Cell (Number NaN), Cell Undefined]]) = Inr r"
    using t [of "Some [[Cell (Text [CHR 0x01]), Cell (Number NaN), Cell Undefined]]" "[]" None] by simp
  have e: "\<exists>r. cleanData (Some [[Text [CHR 0x01], Number NaN, Undefined]]) = Inr r"
    using t [of None "[]" "Some [[Text [CHR 0x01], Number NaN, Undefined]]"] by simp
  from a b c d e show ?thesis by (intro conjI)
qed

subsection \<open>C2: the order of the stages\<close>

text \<open>
  C2. On a grid with at least one row, \<^verbatim>\<open>cleanData\<close> returns the original row count and
  the grid obtained by these stages in this order: every Text cell is trimmed; the
  casing is normalised, which keeps the shape and the cells that are not Text and
  gives a Text with ASCII letters only its title case; a row is dropped when an
  earlier row has the same row string; a row is dropped when all its cells are empty;
  every remaining empty cell becomes \<^verbatim>\<open>N/A\<close>. The header row index is the index of the
  first row of that final grid that is not fully empty (0 when there is none), and
  the cleaned row count is its length. Duplicates are judged on the trimmed and
  case-normalised rows: the kept rows have pairwise different row strings, one for
  each row string of the normalised grid.
\<close>

theorem cleanData_pipeline_order:
  assumes "g \<noteq> []"
  shows "let trimmed = spec_trim g;
             cased = normalizeCasing trimmed;
             unique = spec_dedup cased;
             cleaned = spec_fillEmpty (spec_dropEmptyRows unique)
         in cleanData (Some g) =
              Inr \<lparr> cleanedData = cleaned, headerRowIndex = spec_header cleaned,
                    originalRowCount = length g, cleanedRowCount = length cleaned \<rparr>
            \<and> length cased = length trimmed
            \<and> (\<forall>i < length trimmed. length (cased ! i) = length (trimmed ! i)
                 \<and> (\<forall>j < length (trimmed ! i).
                       (case trimmed ! i ! j of
                          Text s \<Rightarrow> onlyAsciiLetters s \<longrightarrow> cased ! i ! j = Text (asciiTitleCase s)
                        | c \<Rightarrow> cased ! i ! j = c)))
            \<and> distinct (map JSON_stringify unique)
            \<and> length unique = card (JSON_stringify ` set cased)
            \<and> length cleaned \<le> card (JSON_stringify ` set cased)"
proof -
  define cased where "cased = normalizeCasing (spec_trim g)"
  define cleaned where "cleaned = spec_fillEmpty (spec_dropEmptyRows (spec_dedup cased))"
  have run: "cleanData (Some g) =
      Inr \<lparr> cleanedData = cleaned, headerRowIndex = spec_header cleaned,
            originalRowCount = length g, cleanedRowCount = length cleaned \<rparr>"
    using assms
    by (simp add: Let_def cleaned_def cased_def trimAllWhitespace_spec removeDuplicateRows_spec
        removeEmptyRows_spec replaceEmptyCells_spec detectHeaderRow_spec)
  have casing: "length cased = length (spec_trim g)
      \<and> (\<forall>i < length (spec_trim g). length (cased ! i) = length (spec_trim g ! i)
           \<and> (\<forall>j < length (spec_trim g ! i).
                 (case spec_trim g ! i ! j of
                    Text s \<Rightarrow> onlyAsciiLetters s \<longrightarrow> cased ! i ! j = Text (asciiTitleCase s)
                  | c \<Rightarrow> cased ! i ! j = c)))"
    unfolding cased_def by (rule normalizeCasing_cells)
  have unique: "distinct (map JSON_stringify (spec_dedup cased))"
    "length (spec_dedup cased) = card (JSON_stringify ` set cased)"
    using removeDuplicateRows_distinct [of cased] removeDuplicateRows_card [of cased]
    by (simp_all add: removeDuplicateRows_spec)
  have "length cleaned \<le> length (spec_dedup cased)"
    by (simp add: cleaned_def spec_fillEmpty_def spec_dropEmptyRows_def)
  with unique(2) have bound: "length cleaned \<le> card (JSON_stringify ` set cased)"
    by simp
  show ?thesis
    unfolding Let_def cased_def [symmetric] cleaned_def [symmetric]
    using run casing unique bound by (elim conjE) (intro conjI)
qed

theorem cleanData_pipeline_order_witness:
  "cleanData (Some [[Text ''  alice  '', Text ''30''], [Text ''Alice'', Text ''30''], [Text [], Null], [Text ''bob'', Null]])
     = Inr \<lparr> cleanedData = [[Text ''Alice'', Text ''30''], [Text ''Bob'', Text ''N/A'']], headerRowIndex = 0,
             originalRowCount = 4, cleanedRowCount = 2 \<rparr>
   \<and> spec_fillEmpty (spec_dropEmptyRows (spec_dedup (normalizeCasing (spec_trim
        [[Text ''  alice  '', Text ''30''], [Text ''Alice'', Text ''30''], [Text [], Null], [Text ''bob'', Null]]))))
       = [[Text ''Alice'', Text ''30''], [Text ''Bob'', Text ''N/A'']]"
proof -
  have ne: "[[Text ''  alice  '', Text ''30''], [Text ''Alice'', Text ''30''], [Text [], Null], [Text ''bob'', Null]] \<noteq> []"
    by simp
  have run: "cleanData (Some [[Text ''  alice  '', Text ''30''], [Text ''Alice'', Text ''30''], [Text [], Null], [Text ''bob'', Null]])
     = Inr \<lparr> cleanedData = [[Text ''Alice'', Text ''30''], [Text ''Bob'', Text ''N/A'']], headerRowIndex = 0,
             originalRowCount = 4, cleanedRowCount = 2 \<rparr>"
    by code_simp
  have "Inr \<lparr> cleanedData = [[Text ''Alice'', Text ''30''], [Text ''Bob'', Text ''N/A'']], headerRowIndex = 0,
             originalRowCount = 4, cleanedRowCount = 2 \<rparr>
        = (Inr \<lparr> cleanedData = spec_fillEmpty (spec_dropEmptyRows (spec_dedup (normalizeCasing (spec_trim
              [[Text ''  alice  '', Text ''30''], [Text ''Alice'', Text ''30''], [Text [], Null], [Text ''bob'', Null]])))),
             headerRowIndex = spec_header (spec_fillEmpty (spec_dropEmptyRows (spec_dedup (normalizeCasing (spec_trim
              [[Text ''  alice  '', Text ''30''], [Text ''Alice'', Text ''30''], [Text [], Null], [Text ''bob'', Null]]))))),
             originalRowCount = length [[Text ''  alice  '', Text ''30''], [Text ''Alice'', Text ''30''], [Text [], Null], [Text ''bob'', Null]],
             cleanedRowCount = length (spec_fillEmpty (spec_dropEmptyRows (spec_dedup (normalizeCasing (spec_trim
              [[Text ''  alice  '', Text ''30''], [Text ''Alice'', Text ''30''], [Text [], Null], [Text ''bob'', Null]]))))) \<rparr>
           :: error + CleaningResult)"
    using cleanData_pipeline_order [OF ne] unfolding Let_def run by (rule conjunct1)
  then have "spec_fillEmpty (spec_dropEmptyRows (spec_dedup (normalizeCasing (spec_trim
        [[Text ''  alice  '', Text ''30''], [Text ''Alice'', Text ''30''], [Text [], Null], [Text ''bob'', Null]]))))
       = [[Text ''Alice'', Text ''30''], [Text ''Bob'', Text ''N/A'']]"
    by (simp only: sum.inject CleaningResult.ext_inject)
  with run show ?thesis by (rule conjI)
qed

subsection \<open>C3: the row counts\<close>

text \<open>
  C3. In the result of \<^verbatim>\<open>cleanData\<close>, the cleaned row count is the number of rows of the
  cleaned grid, the original row count is the number of rows of the input, the cleaned
  count is at most the original count, and the header row index is below the cleaned
  count whenever that is positive.
\<close>

theorem cleanData_row_counts:
  assumes "cleanData (Some g) = Inr r"
  shows "cleanedRowCount r = length (cleanedData r)
         \<and> originalRowCount r = length g
         \<and> cleanedRowCount r \<le> originalRowCount r
         \<and> (cleanedRowCount r > 0 \<longrightarrow> headerRowIndex r < cleanedRowCount r)"
  using cleanData_InrD [OF assms] pipeline_length [of g] pipeline_header [of g] by simp

theorem cleanData_row_counts_witness:
  "cleanData (Some [[Null, Null], [Text ''x'', Null]])
     = Inr \<lparr> cleanedData = [[Text ''X'', Text ''N/A'']], headerRowIndex = 0,
             originalRowCount = 2, cleanedRowCount = 1 \<rparr>
   \<and> (1::nat) = length [[Text ''X'', Text ''N/A'']] \<and> (2::nat) = length [[Null, Null], [Text ''x'', Null]]
   \<and> (1::nat) \<le> 2 \<and> (0::nat) < 1"
proof -
  have run: "cleanData (Some [[Null, Null], [Text ''x'', Null]])
     = Inr \<lparr> cleanedData = [[Text ''X'', Text ''N/A'']], headerRowIndex = 0,
             originalRowCount = 2, cleanedRowCount = 1 \<rparr>"
    by code_simp
  show ?thesis
    using cleanData_row_counts [OF run] run by simp
qed

subsection \<open>C4: no empty cell is left\<close>

text \<open>
  C4. No cell of the cleaned grid is \<^verbatim>\<open>null\<close>, \<^verbatim>\<open>undefined\<close> or a string whose trimmed
  content has length zero. The cleaned grid has the shape of the grid that the removal
  of empty rows returns; each of its cells is the string \<^verbatim>\<open>N/A\<close> where the cell before
  was empty in that sense, and the cell before otherwise.
\<close>

theorem cleanData_no_empty_cells:
  assumes "cleanData (Some g) = Inr r"
  shows "(\<forall>row \<in> set (cleanedData r). \<forall>c \<in> set row.
            c \<noteq> Null \<and> c \<noteq> Undefined \<and> (\<forall>s. c = Text s \<longrightarrow> length (trim s) \<noteq> 0))
         \<and> (let pre = removeEmptyRows (removeDuplicateRows (normalizeCasing (trimAllWhitespace g)))
            in length (cleanedData r) = length pre
               \<and> (\<forall>i < length pre. length (cleanedData r ! i) = length (pre ! i)
                    \<and> (\<forall>j < length (pre ! i).
                          cleanedData r ! i ! j =
                            (if pre ! i ! j = Null \<or> pre ! i ! j = Undefined
                                  \<or> (\<exists>s. pre ! i ! j = Text s \<and> length (trim s) = 0)
                             then Text ''N/A'' else pre ! i ! j))))"
proof -
  have cleaned: "cleanedData r = pipeline g"
    using assms by (rule cleanData_InrD)
  have "\<forall>row \<in> set (pipeline g). \<forall>c \<in> set row.
          c \<noteq> Null \<and> c \<noteq> Undefined \<and> (\<forall>s. c = Text s \<longrightarrow> length (trim s) \<noteq> 0)"
    using pipeline_cells_nonempty [of _ g] by (fastforce simp: isEmptyCell_iff)
  moreover have "length (pipeline g)
      = length (removeEmptyRows (removeDuplicateRows (normalizeCasing (trimAllWhitespace g))))"
    by (simp add: pipeline_def replaceEmptyCells_def)
  moreover have "length (pipeline g ! i) = length (pre ! i)
        \<and> (\<forall>j < length (pre ! i).
              pipeline g ! i ! j =
                (if pre ! i ! j = Null \<or> pre ! i ! j = Undefined
                      \<or> (\<exists>s. pre ! i ! j = Text s \<and> length (trim s) = 0)
                 then Text ''N/A'' else pre ! i ! j))"
    if "pre = removeEmptyRows (removeDuplicateRows (normalizeCasing (trimAllWhitespace g)))"
      and "i < length pre" for pre i
  proof -
    have p: "pipeline g = replaceEmptyCells pre"
      using that(1) by (simp add: pipeline_def)
    have "length (replaceEmptyCells pre ! i) = length (pre ! i)"
      using that(2) by (simp add: replaceEmptyCells_def)
    then show ?thesis
      using that(2) by (simp add: p replaceEmptyCells_nth isEmptyCell_iff)
  qed
  ultimately show ?thesis
    unfolding cleaned Let_def by blast
qed

theorem cleanData_no_empty_cells_witness:
  "cleanData (Some [[Null, Null], [Text ''x'', Null], [Text '' '', Number (Finite 0)]])
     = Inr \<lparr> cleanedData = [[Text ''X'', Text ''N/A''], [Text ''N/A'', Number (Finite 0)]],
             headerRowIndex = 0, originalRowCount = 3, cleanedRowCount = 2 \<rparr>
   \<and> length (trim ''X'') \<noteq> 0 \<and> length (trim ''N/A'') \<noteq> 0"
proof -
  have run: "cleanData (Some [[Null, Null], [Text ''x'', Null], [Text '' '', Number (Finite 0)]])
     = Inr \<lparr> cleanedData = [[Text ''X'', Text ''N/A''], [Text ''N/A'', Number (Finite 0)]],
             headerRowIndex = 0, originalRowCount = 3, cleanedRowCount = 2 \<rparr>"
    by code_simp
  show ?thesis
    using cleanData_no_empty_cells [OF run] run by simp
qed

subsection \<open>C5: duplicate rows\<close>

text \<open>
  C5 as stated fails on the cell kinds: the serialization writes a non-finite number as
  \<^verbatim>\<open>null\<close>, so the Number cell \<^verbatim>\<open>NaN\<close> is equal to an Empty cell, and a row holding
  the one is dropped as a duplicate of a row holding the other.
\<close>

theorem removeDuplicateRows_nonfinite_counterexample:
  "serializeCell (Number NaN) = serializeCell Null
   \<and> JSON_stringify [Number NaN] = JSON_stringify [Null]
   \<and> removeDuplicateRows [[Number NaN], [Null]] = [[Number NaN]]
   \<and> removeDuplicateRows [[Null], [Number PosInfinity]] = [[Null]]"
  by code_simp

text \<open>
  C5, amended. \<^verbatim>\<open>removeDuplicateRows\<close> returns, in the order of the input, exactly the
  rows whose row string differs from that of every earlier row. Two rows have the same
  row string if and only if they have the same length and the same cell string at
  every position. The cell string tells a Text cell, a Boolean cell and a Number cell
  holding a whole number apart from every other cell, by kind and value;
  \<^verbatim>\<open>null\<close>, \<^verbatim>\<open>undefined\<close>, \<^verbatim>\<open>NaN\<close>, \<^verbatim>\<open>Infinity\<close> and \<^verbatim>\<open>-Infinity\<close> all have the cell string
  \<^verbatim>\<open>null\<close> and no other cell has it. So the text \<^verbatim>\<open>5\<close> differs from the number 5, and
  an Empty cell from the empty text. Having the same row string is an equivalence
  relation.
\<close>

theorem removeDuplicateRows_first_occurrence:
  "removeDuplicateRows data =
     map (\<lambda>i. data ! i)
       (filter (\<lambda>i. \<forall>j < i. JSON_stringify (data ! j) \<noteq> JSON_stringify (data ! i))
          [0..<length data])
   \<and> (JSON_stringify r1 = JSON_stringify r2 \<longleftrightarrow>
        length r1 = length r2 \<and> (\<forall>k < length r1. serializeCell (r1 ! k) = serializeCell (r2 ! k)))
   \<and> (serializeCell (Text s) = serializeCell c \<longleftrightarrow> c = Text s)
   \<and> (serializeCell (Boolean b) = serializeCell c \<longleftrightarrow> c = Boolean b)
   \<and> (serializeCell (Number (Finite n)) = serializeCell c \<longleftrightarrow> c = Number (Finite n))
   \<and> (serializeCell Null = serializeCell c \<longleftrightarrow>
        c = Null \<or> c = Undefined \<or> c = Number NaN \<or> c = Number PosInfinity \<or> c = Number NegInfinity)
   \<and> serializeCell Undefined = serializeCell Null
   \<and> serializeCell (Text ''5'') \<noteq> serializeCell (Number (Finite 5))
   \<and> serializeCell Null \<noteq> serializeCell (Text [])
   \<and> equivp (\<lambda>r1 r2. JSON_stringify r1 = JSON_stringify r2)"
proof -
  have rows: "JSON_stringify r1 = JSON_stringify r2 \<longleftrightarrow>
        length r1 = length r2 \<and> (\<forall>k < length r1. serializeCell (r1 ! k) = serializeCell (r2 ! k))"
    unfolding JSON_stringify_eq_iff
    by (auto simp: list_eq_iff_nth_eq [of "map serializeCell r1" "map serializeCell r2"])
  have null: "serializeCell Null = serializeCell c \<longleftrightarrow>
        c = Null \<or> c = Undefined \<or> c = Number NaN \<or> c = Number PosInfinity \<or> c = Number NegInfinity"
    using serializeCell_null_iff [of c] by auto
  have five: "serializeCell (Text ''5'') \<noteq> serializeCell (Number (Finite 5))"
    by (simp only: serializeCell_Text_iff) simp
  have blank: "serializeCell Null \<noteq> serializeCell (Text [])"
    using serializeCell_Text_iff [of "[]" Null] by auto
  have equiv: "equivp (\<lambda>r1 r2. JSON_stringify r1 = JSON_stringify r2)"
    by (intro equivpI reflpI sympI transpI) simp_all
  show ?thesis
    by (intro conjI removeDuplicateRows_index rows serializeCell_Text_iff serializeCell_Boolean_iff
        serializeCell_Finite_iff null five blank equiv) simp
qed

theorem removeDuplicateRows_first_occurrence_witness:
  "map (\<lambda>i. [[Text ''a''], [Text ''b''], [Text ''a''], [Null], [Text ''b''], [Undefined]] ! i)
     (filter (\<lambda>i. \<forall>j < i.
          JSON_stringify ([[Text ''a''], [Text ''b''], [Text ''a''], [Null], [Text ''b''], [Undefined]] ! j)
          \<noteq> JSON_stringify ([[Text ''a''], [Text ''b''], [Text ''a''], [Null], [Text ''b''], [Undefined]] ! i))
        [0..<length [[Text ''a''], [Text ''b''], [Text ''a''], [Null], [Text ''b''], [Undefined]]])
     = [[Text ''a''], [Text ''b''], [Null]]
   \<and> serializeCell Undefined = serializeCell Null"
proof -
  have run: "removeDuplicateRows [[Text ''a''], [Text ''b''], [Text ''a''], [Null], [Text ''b''], [Undefined]]
     = [[Text ''a''], [Text ''b''], [Null]]"
    by code_simp
  note inst = removeDuplicateRows_first_occurrence
      [of "[[Text ''a''], [Text ''b''], [Text ''a''], [Null], [Text ''b''], [Undefined]]"
          "[Null]" "[Undefined]" "[]" Null True 0]
  have first: "removeDuplicateRows [[Text ''a''], [Text ''b''], [Text ''a''], [Null], [Text ''b''], [Undefined]]
     = map (\<lambda>i. [[Text ''a''], [Text ''b''], [Text ''a''], [Null], [Text ''b''], [Undefined]] ! i)
         (filter (\<lambda>i. \<forall>j < i.
              JSON_stringify ([[Text ''a''], [Text ''b''], [Text ''a''], [Null], [Text ''b''], [Undefined]] ! j)
              \<noteq> JSON_stringify ([[Text ''a''], [Text ''b''], [Text ''a''], [Null], [Text ''b''], [Undefined]] ! i))
            [0..<length [[Text ''a''], [Text ''b''], [Text ''a''], [Null], [Text ''b''], [Undefined]]])"
    using inst by (elim conjE)
  have same: "serializeCell Undefined = serializeCell Null"
    using inst by (elim conjE)
  from first [symmetric] run have "map (\<lambda>i. [[Text ''a''], [Text ''b''], [Text ''a''], [Null], [Text ''b''], [Undefined]] ! i)
     (filter (\<lambda>i. \<forall>j < i.
          JSON_stringify ([[Text ''a''], [Text ''b''], [Text ''a''], [Null], [Text ''b''], [Undefined]] ! j)
          \<noteq> JSON_stringify ([[Text ''a''], [Text ''b''], [Text ''a''], [Null], [Text ''b''], [Undefined]] ! i))
        [0..<length [[Text ''a''], [Text ''b''], [Text ''a''], [Null], [Text ''b''], [Undefined]]])
     = [[Text ''a''], [Text ''b''], [Null]]"
    by (rule trans)
  then show ?thesis using same by (rule conjI)
qed

subsection \<open>C6: no two rows with the same row string, but for the placeholder\<close>

text \<open>
  C6. The rows handed to the replacement of empty cells have pairwise different row
  strings. So two different rows of the cleaned grid differ in their row strings,
  unless the replacement changed one of them: rows that differed before the
  placeholder was written and are the same after it both remain.
\<close>

theorem cleanData_rows_differ:
  assumes "cleanData (Some g) = Inr r"
  shows "let pre = removeEmptyRows (removeDuplicateRows (normalizeCasing (trimAllWhitespace g)))
         in cleanedData r = replaceEmptyCells pre
            \<and> length (cleanedData r) = length pre
            \<and> (\<forall>i j. i < length pre \<longrightarrow> j < length pre \<longrightarrow> i \<noteq> j \<longrightarrow>
                  JSON_stringify (pre ! i) \<noteq> JSON_stringify (pre ! j)
                  \<and> (JSON_stringify (cleanedData r ! i) = JSON_stringify (cleanedData r ! j) \<longrightarrow>
                       cleanedData r ! i \<noteq> pre ! i \<or> cleanedData r ! j \<noteq> pre ! j)
                  \<and> (cleanedData r ! i \<noteq> pre ! i \<longrightarrow> (\<exists>c \<in> set (pre ! i). isEmptyCell c)))"
proof -
  define pre where "pre = removeEmptyRows (removeDuplicateRows (normalizeCasing (trimAllWhitespace g)))"
  have cleaned: "cleanedData r = replaceEmptyCells pre"
    using cleanData_InrD(2) [OF assms] by (simp add: pipeline_def pre_def)
  have len: "length (replaceEmptyCells pre) = length pre"
    by (simp add: replaceEmptyCells_def)
  have dist: "distinct (map JSON_stringify pre)"
    unfolding pre_def by (intro removeEmptyRows_distinct removeDuplicateRows_distinct)
  have differ: "JSON_stringify (pre ! i) \<noteq> JSON_stringify (pre ! j)"
    if "i < length pre" "j < length pre" "i \<noteq> j" for i j
    using that dist nth_eq_iff_index_eq [of "map JSON_stringify pre" i j] by simp
  have changed: "\<exists>c \<in> set (pre ! i). isEmptyCell c"
    if "i < length pre" "replaceEmptyCells pre ! i \<noteq> pre ! i" for i
  proof (rule ccontr)
    assume "\<not> (\<exists>c \<in> set (pre ! i). isEmptyCell c)"
    then have "map replaceEmptyCell (pre ! i) = pre ! i"
      by (intro replaceEmptyCell_unchanged) simp
    with that show False by (simp add: replaceEmptyCells_def)
  qed
  have "JSON_stringify (pre ! i) \<noteq> JSON_stringify (pre ! j)
        \<and> (JSON_stringify (replaceEmptyCells pre ! i) = JSON_stringify (replaceEmptyCells pre ! j) \<longrightarrow>
             replaceEmptyCells pre ! i \<noteq> pre ! i \<or> replaceEmptyCells pre ! j \<noteq> pre ! j)
        \<and> (replaceEmptyCells pre ! i \<noteq> pre ! i \<longrightarrow> (\<exists>c \<in> set (pre ! i). isEmptyCell c))"
    if "i < length pre" "j < length pre" "i \<noteq> j" for i j
    using differ [OF that] changed [OF that(1)] by auto
  then show ?thesis
    unfolding Let_def pre_def [symmetric] cleaned len by blast
qed

theorem cleanData_rows_differ_witness:
  "cleanData (Some [[Null, Text ''x''], [Text ''N/A'', Text ''x'']])
     = Inr \<lparr> cleanedData = [[Text ''N/A'', Text ''X''], [Text ''N/A'', Text ''X'']],
             headerRowIndex = 0, originalRowCount = 2, cleanedRowCount = 2 \<rparr>
   \<and> JSON_stringify [Null, Text ''X''] \<noteq> JSON_stringify [Text ''N/A'', Text ''X'']"
proof -
  have run: "cleanData (Some [[Null, Text ''x''], [Text ''N/A'', Text ''x'']])
     = Inr \<lparr> cleanedData = [[Text ''N/A'', Text ''X''], [Text ''N/A'', Text ''X'']],
             headerRowIndex = 0, originalRowCount = 2, cleanedRowCount = 2 \<rparr>"
    by code_simp
  have pre: "removeEmptyRows (removeDuplicateRows (normalizeCasing (trimAllWhitespace
               [[Null, Text ''x''], [Text ''N/A'', Text ''x'']])))
             = [[Null, Text ''X''], [Text ''N/A'', Text ''X'']]"
    by code_simp
  have idx: "(0::nat) < length [[Null, Text ''X''], [Text ''N/A'', Text ''X'']]"
    "(1::nat) < length [[Null, Text ''X''], [Text ''N/A'', Text ''X'']]" "(0::nat) \<noteq> 1"
    by simp_all
  have "JSON_stringify ([[Null, Text ''X''], [Text ''N/A'', Text ''X'']] ! 0)
        \<noteq> JSON_stringify ([[Null, Text ''X''], [Text ''N/A'', Text ''X'']] ! 1)"
    using cleanData_rows_differ [OF run] idx unfolding Let_def pre by blast
  then show ?thesis
    using run by simp
qed

subsection \<open>C7: cleaning a cleaned grid\<close>

text \<open>
  C7 as stated fails when the first pass leaves no row at all: the grid of one row with
  one \<^verbatim>\<open>null\<close> cell is cleaned to the grid without rows, which holds no blank cell and
  no duplicate, and on that grid \<^verbatim>\<open>cleanData\<close> raises its error instead of returning it
  unchanged.
\<close>

theorem cleanData_idempotent_counterexample:
  "cleanData (Some [[Null]])
     = Inr \<lparr> cleanedData = [], headerRowIndex = 0, originalRowCount = 1, cleanedRowCount = 0 \<rparr>
   \<and> cleanData (Some []) = Inl (Error ''No data provided to clean.'')"
  by code_simp

text \<open>
  C7, amended. When the cleaned grid of the first pass has at least one row and its
  rows have pairwise different row strings, a second pass returns the same cleaned
  grid; the result differs from the first only in the original row count, which is now
  the cleaned row count.
\<close>

theorem cleanData_idempotent_nonempty:
  assumes "cleanData (Some g) = Inr r"
    and "cleanedData r \<noteq> []"
    and "distinct (map JSON_stringify (cleanedData r))"
  shows "cleanData (Some (cleanedData r)) = Inr (r\<lparr>originalRowCount := cleanedRowCount r\<rparr>)
         \<and> (\<exists>r'. cleanData (Some (cleanedData r)) = Inr r' \<and> cleanedData r' = cleanedData r)"
proof -
  note d = cleanData_InrD [OF assms(1)]
  have ne: "pipeline g \<noteq> []" using assms(2) d(2) by simp
  have again: "pipeline (pipeline g) = pipeline g"
    using assms(3) d(2) by (simp add: pipeline_fixpoint)
  have r: "r = \<lparr> cleanedData = pipeline g, headerRowIndex = detectHeaderRow (pipeline g),
           originalRowCount = length g, cleanedRowCount = length (pipeline g) \<rparr>"
    using d by simp
  have "cleanData (Some (pipeline g)) = Inr (r\<lparr>originalRowCount := cleanedRowCount r\<rparr>)"
    unfolding cleanData_Some [OF ne] again by (simp add: r)
  then show ?thesis
    by (simp add: d(2))
qed

theorem cleanData_idempotent_nonempty_witness:
  "cleanData (Some [[Text ''Alice'', Text ''30'']])
     = Inr \<lparr> cleanedData = [[Text ''Alice'', Text ''30'']], headerRowIndex = 0,
             originalRowCount = 1, cleanedRowCount = 1 \<rparr>"
proof -
  have run: "cleanData (Some [[Text ''  alice  '', Text ''30''], [Text ''Alice'', Text ''30''], [Text [], Text []]])
     = Inr \<lparr> cleanedData = [[Text ''Alice'', Text ''30'']], headerRowIndex = 0,
             originalRowCount = 3, cleanedRowCount = 1 \<rparr>"
    by code_simp
  have ne: "cleanedData \<lparr> cleanedData = [[Text ''Alice'', Text ''30'']], headerRowIndex = 0,
             originalRowCount = 3, cleanedRowCount = 1 \<rparr> \<noteq> []"
    by simp
  have dist: "distinct (map JSON_stringify (cleanedData \<lparr> cleanedData = [[Text ''Alice'', Text ''30'']],
             headerRowIndex = 0, originalRowCount = 3, cleanedRowCount = 1 \<rparr>))"
    by simp
  show ?thesis
    using cleanData_idempotent_nonempty [OF run ne dist] by simp
qed

subsection \<open>C8: casing and trimming\<close>

text \<open>
  C8 as stated fails: the string of a blank and the letter \<^verbatim>\<open>a\<close> is cased to a blank
  and \<^verbatim>\<open>A\<close>, while its trimmed value is cased to \<^verbatim>\<open>A\<close> alone.
\<close>

theorem normalizeCasing_trim_counterexample:
  "normalizeCasing (trimAllWhitespace [[Text '' a'']]) = [[Text ''A'']]
   \<and> normalizeCasing [[Text '' a'']] = [[Text '' A'']]
   \<and> normalizeCasing (trimAllWhitespace [[Text '' a'']]) \<noteq> normalizeCasing [[Text '' a'']]"
proof -
  have l: "normalizeCasing (trimAllWhitespace [[Text '' a'']]) = [[Text ''A'']]"
    by code_simp
  have r: "normalizeCasing [[Text '' a'']] = [[Text '' A'']]"
    by code_simp
  show ?thesis
    unfolding l r by simp
qed

text \<open>
  C8, amended. Casing and trimming commute: the cased value of the trimmed text is the
  trimmed value of the cased text, for a cell and for a grid.
\<close>

theorem normalizeCasing_trim_commute:
  "normalizeCasing (trimAllWhitespace g) = trimAllWhitespace (normalizeCasing g)
   \<and> toTitleCase (trimWhitespace (Text x)) = trimWhitespace (toTitleCase (Text x))"
proof -
  have "toTitleCase (Text y) = caseCell (Text y)" for y
    by (simp add: caseCell_def)
  then have "toTitleCase (trimWhitespace (Text x)) = trimWhitespace (toTitleCase (Text x))"
    using caseCell_trimWhitespace [of "Text x"] by simp
  then show ?thesis
    by (simp add: normalizeCasing_caseCell trimAllWhitespace_map caseCell_trimWhitespace)
qed

theorem normalizeCasing_trim_commute_witness:
  "normalizeCasing (trimAllWhitespace [[Text '' a'']]) = trimAllWhitespace [[Text '' A'']]"
proof -
  have r: "normalizeCasing [[Text '' a'']] = [[Text '' A'']]"
    by code_simp
  show ?thesis
    using normalizeCasing_trim_commute [of "[[Text '' a'']]" "'' a''"] unfolding r by (rule conjunct1)
qed

subsection \<open>C9: title case\<close>

text \<open>
  C9 as stated fails on the character that is upper-cased: in a run of word characters
  that starts with a digit, no letter is upper-cased. The replacement is applied to
  the first character of the run, not to its first letter.
\<close>

theorem normalizeCasing_first_letter_counterexample:
  "normalizeCasing [[Text ''1st place'']] = [[Text ''1st Place'']]
   \<and> onlyAsciiLetters ''1st place''
   \<and> isWordChar (CHR ''1'') \<and> \<not> isLetter (CHR ''1'') \<and> isLetter (CHR ''s'')"
proof -
  have "normalizeCasing [[Text ''1st place'']] = [[Text ''1st Place'']]"
    by code_simp
  moreover have "onlyAsciiLetters ''1st place''"
    by (simp add: onlyAsciiLetters_def isLetter_def)
  moreover have "isWordChar (CHR ''1'') \<and> \<not> isLetter (CHR ''1'') \<and> isLetter (CHR ''s'')"
    by (simp add: isWordChar_def isLetter_def)
  ultimately show ?thesis by simp
qed

text \<open>
  C9, amended. \<^verbatim>\<open>normalizeCasing\<close> keeps the shape of the grid and every cell that is not
  a Text. A Text whose letters are all ASCII letters is lower-cased as a whole, and
  then the first character of each maximal run of word characters is upper-cased,
  which changes it only when it is a letter; for these texts the word characters are
  the letters, the digits and the underscore. The empty text is kept.
\<close>

theorem normalizeCasing_title_case:
  "length (normalizeCasing g) = length g
   \<and> (\<forall>i < length g. length (normalizeCasing g ! i) = length (g ! i)
        \<and> (\<forall>j < length (g ! i).
              (case g ! i ! j of
                 Text s \<Rightarrow> onlyAsciiLetters s \<longrightarrow> normalizeCasing g ! i ! j = Text (asciiTitleCase s)
               | c \<Rightarrow> normalizeCasing g ! i ! j = c)))
   \<and> asciiTitleCase [] = []
   \<and> length (asciiTitleCase s) = length s
   \<and> ((isLetter c \<longrightarrow> (of_char c :: nat) < 128) \<longrightarrow>
        (isWordChar c \<longleftrightarrow> isLetter c \<or> isDigit c \<or> c = CHR ''_''))"
proof -
  have "length (asciiTitleCase s) = length s"
    by (simp add: asciiTitleCase_def Let_def toLowerCase_def)
  moreover have "asciiTitleCase [] = []"
    by (simp add: asciiTitleCase_def toLowerCase_def)
  moreover have "(isLetter c \<longrightarrow> (of_char c :: nat) < 128) \<longrightarrow>
        (isWordChar c \<longleftrightarrow> isLetter c \<or> isDigit c \<or> c = CHR ''_'')"
    using asciiLetter_word [of c] by blast
  ultimately show ?thesis
    using normalizeCasing_cells [of g] by (intro conjI) simp_all
qed

theorem normalizeCasing_title_case_witness:
  "onlyAsciiLetters ''hELLO wORLD''
   \<and> normalizeCasing [[Text ''hELLO wORLD'', Number (Finite 5), Text []]] ! 0 ! 0
       = Text (asciiTitleCase ''hELLO wORLD'')
   \<and> normalizeCasing [[Text ''hELLO wORLD'', Number (Finite 5), Text []]]
       = [[Text ''Hello World'', Number (Finite 5), Text []]]"
proof -
  have ascii: "onlyAsciiLetters ''hELLO wORLD''"
    by (simp add: onlyAsciiLetters_def isLetter_def)
  have run: "normalizeCasing [[Text ''hELLO wORLD'', Number (Finite 5), Text []]]
     = [[Text ''Hello World'', Number (Finite 5), Text []]]"
    by code_simp
  have idx: "(0::nat) < length [[Text ''hELLO wORLD'', Number (Finite 5), Text []]]"
    "(0::nat) < length ([[Text ''hELLO wORLD'', Number (Finite 5), Text []]] ! 0)"
    by simp_all
  have "case [[Text ''hELLO wORLD'', Number (Finite 5), Text []]] ! 0 ! 0 of
          Text s \<Rightarrow> onlyAsciiLetters s \<longrightarrow>
            normalizeCasing [[Text ''hELLO wORLD'', Number (Finite 5), Text []]] ! 0 ! 0 = Text (asciiTitleCase s)
        | c \<Rightarrow> normalizeCasing [[Text ''hELLO wORLD'', Number (Finite 5), Text []]] ! 0 ! 0 = c"
    using normalizeCasing_title_case [of "[[Text ''hELLO wORLD'', Number (Finite 5), Text []]]" "[]" "CHR ''a''"] idx
    by blast
  then have "normalizeCasing [[Text ''hELLO wORLD'', Number (Finite 5), Text []]] ! 0 ! 0
       = Text (asciiTitleCase ''hELLO wORLD'')"
    using ascii by simp
  with ascii run show ?thesis by (intro conjI)
qed

text \<open>
  A letter that is not an ASCII letter is outside the amended claim. There the
  replacement takes the letter for a boundary: the code unit 233 is a letter (e with
  acute), and the letter after it is upper-cased inside the word, which is not the
  title case that the comment of \<^verbatim>\<open>toTitleCase\<close> announces.
\<close>

lemma normalizeCasing_non_ascii_letter:
  "isLetter (CHR 0xE9)
   \<and> normalizeCasing [[Text [CHR 0xE9, CHR ''c'', CHR ''o'', CHR ''l'', CHR ''e'']]]
       = [[Text [CHR 0xE9, CHR ''C'', CHR ''o'', CHR ''l'', CHR ''e'']]]"
proof -
  have "isLetter (CHR 0xE9)"
    by (simp add: isLetter_def)
  moreover have "normalizeCasing [[Text [CHR 0xE9, CHR ''c'', CHR ''o'', CHR ''l'', CHR ''e'']]]
       = [[Text [CHR 0xE9, CHR ''C'', CHR ''o'', CHR ''l'', CHR ''e'']]]"
    by code_simp
  ultimately show ?thesis by simp
qed

subsection \<open>C10: the header row index\<close>

text \<open>
  C10. On a grid with at least one row, the header row index of the result is 0: the
  cleaned grid is empty, or its first row is not an empty row.
\<close>

theorem cleanData_header_zero:
  assumes "g \<noteq> []"
  shows "\<exists>r. cleanData (Some g) = Inr r \<and> headerRowIndex r = 0
             \<and> (cleanedData r = [] \<or> \<not> isEmptyRow (cleanedData r ! 0))"
proof -
  have "pipeline g = [] \<or> \<not> isEmptyRow (pipeline g ! 0)"
  proof (cases "pipeline g")
    case Nil
    then show ?thesis by simp
  next
    case (Cons row rest)
    then have "row \<in> set (replaceEmptyCells (removeEmptyRows (removeDuplicateRows (normalizeCasing (trimAllWhitespace g)))))"
      by (simp add: pipeline_def)
    then have "\<not> isEmptyRow row" by (rule surviving_rows_nonempty)
    with Cons show ?thesis by simp
  qed
  then show ?thesis
    using cleanData_Some [OF assms] pipeline_header [of g] by simp
qed

theorem cleanData_header_zero_witness:
  "\<exists>r. cleanData (Some [[Null, Null], [Text ''x'', Null]]) = Inr r \<and> headerRowIndex r = 0"
proof -
  have ne: "[[Null, Null], [Text ''x'', Null]] \<noteq> []" by simp
  show ?thesis
    using cleanData_header_zero [OF ne] by blast
qed

end
